theory Spec2Isabelle
  imports Main "HOL-Library.Word" "HOL-Library.Multiset"
begin

section \<open>JavaScript values\<close>

text \<open>
  Documents, queries, update descriptions and the persisted image are JavaScript values.
  Numbers are the integer-valued ones and NaN; strings are lists of 8-bit code units. A \<open>Date\<close> carries its
  time value in milliseconds since the epoch. An object is its list of own enumerable
  properties in enumeration order; properties inherited from a prototype are not modelled.
\<close>

datatype jsval =
    JUndefined
  | JNull
  | JBool bool
  | JNum int
  | JNaN
  | JStr string
  | JDate int
  | JArr "jsval list"
  | JObj "(string \<times> jsval) list"

type_synonym bytes = "8 word list"

datatype error =
    UnsupportedOperator string
  | UnsupportedUpdateOperator string
  | TypeError string
  | SyntaxError string
  | RangeError string
  | CollectionError string
  | ValidationError string
  | DuplicateUniqueField string
  | DuplicateUniqueIndex string
  | IndexExists string
  | InvalidFormat
  | UnsupportedVersion nat
  | IntegrityCheckFailed
  | DecryptionFailed
  | GunzipFailed
  | SaveFailed error
  | LoadFailed error

text \<open>
  What the code takes from the language runtime and from the host is a parameter of the
  model: the regular-expression engine (\<open>new RegExp(p)\<close> and its \<open>test\<close>; \<open>None\<close> is the
  SyntaxError of a malformed pattern), the conversion of a string to a number (\<open>None\<close> is
  NaN), \<open>Date.parse\<close> (\<open>None\<close> is NaN), the rendering of a \<open>Date\<close> in the host's time
  zone, and \<open>Array.prototype.sort\<close> with a comparator, whose result the language fixes
  only for a comparator that orders the elements consistently.
\<close>

record runtime =
  regexp_compile :: "string \<Rightarrow> (string \<Rightarrow> bool) option"
  string_to_number :: "string \<Rightarrow> int option"
  date_parse :: "string \<Rightarrow> int option"
  date_to_string :: "int \<Rightarrow> string"
  array_sort :: "(jsval \<Rightarrow> jsval \<Rightarrow> int) \<Rightarrow> jsval list \<Rightarrow> jsval list"

text \<open>
  The libraries of the storage layer, parameters as well: \<open>JSON.stringify\<close> followed by
  the UTF-8 encoding and its inverse (\<open>None\<close> is the SyntaxError of \<open>JSON.parse\<close>), base64,
  zlib's gzip and gunzip, AES-256-CBC by key, initialisation vector and data (\<open>None\<close> is
  the failure of \<open>createDecipheriv\<close> or of the padding check), SHA-256 in hexadecimal and
  PBKDF2 by password and salt.
\<close>

record libs =
  json_write :: "jsval \<Rightarrow> bytes"
  json_read :: "bytes \<Rightarrow> jsval option"
  base64_encode :: "bytes \<Rightarrow> string"
  base64_decode :: "string \<Rightarrow> bytes"
  gzip :: "bytes \<Rightarrow> bytes"
  gunzip :: "bytes \<Rightarrow> bytes option"
  aes_encrypt :: "bytes \<Rightarrow> bytes \<Rightarrow> bytes \<Rightarrow> bytes"
  aes_decrypt :: "bytes \<Rightarrow> bytes \<Rightarrow> bytes \<Rightarrow> bytes option"
  sha256_hex :: "bytes \<Rightarrow> string"
  pbkdf2 :: "string \<Rightarrow> bytes \<Rightarrow> bytes"

subsection \<open>Coercions and operators of the language\<close>

fun truthy :: "jsval \<Rightarrow> bool" where
  "truthy JUndefined = False"
| "truthy JNull = False"
| "truthy (JBool b) = b"
| "truthy (JNum n) = (n \<noteq> 0)"
| "truthy JNaN = False"
| "truthy (JStr s) = (s \<noteq> [])"
| "truthy (JDate t) = True"
| "truthy (JArr xs) = True"
| "truthy (JObj kvs) = True"

text \<open>\<open>typeof v === 'object' && v !== null\<close>.\<close>

fun is_object :: "jsval \<Rightarrow> bool" where
  "is_object (JDate t) = True"
| "is_object (JArr xs) = True"
| "is_object (JObj kvs) = True"
| "is_object v = False"

fun digit_char :: "nat \<Rightarrow> char" where
  "digit_char n = char_of (48 + n)"

text \<open>The decimal digits of an integer that is not negative.\<close>

function digits_of :: "int \<Rightarrow> string" where
  "digits_of n =
     (if n < 10 then [digit_char (nat n)]
      else digits_of (n div 10) @ [digit_char (nat (n mod 10))])"
  by pat_completeness auto
termination
  by (relation "measure nat") auto

declare digits_of.simps [simp del]

definition nat_to_string :: "nat \<Rightarrow> string" where
  "nat_to_string n = digits_of (int n)"

definition int_to_string :: "int \<Rightarrow> string" where
  "int_to_string i = (if i < 0 then CHR ''-'' # digits_of (- i) else digits_of i)"

fun join_with :: "string \<Rightarrow> string list \<Rightarrow> string" where
  "join_with sep [] = []"
| "join_with sep [x] = x"
| "join_with sep (x # y # ys) = x @ sep @ join_with sep (y # ys)"

text \<open>\<open>String(v)\<close>. An array joins its elements with commas, null and undefined ones as
  the empty string.\<close>

fun to_string :: "runtime \<Rightarrow> jsval \<Rightarrow> string" where
  "to_string rt JUndefined = ''undefined''"
| "to_string rt JNull = ''null''"
| "to_string rt (JBool b) = (if b then ''true'' else ''false'')"
| "to_string rt (JNum n) = int_to_string n"
| "to_string rt JNaN = ''NaN''"
| "to_string rt (JStr s) = s"
| "to_string rt (JDate t) = date_to_string rt t"
| "to_string rt (JArr xs) =
     join_with '','' (map (\<lambda>x. if x = JUndefined \<or> x = JNull then [] else to_string rt x) xs)"
| "to_string rt (JObj kvs) = ''[object Object]''"

text \<open>\<open>ToPrimitive\<close> with hint number: a \<open>Date\<close> gives its time value, any other object
  its string.\<close>

fun to_primitive :: "runtime \<Rightarrow> jsval \<Rightarrow> jsval" where
  "to_primitive rt (JDate t) = JNum t"
| "to_primitive rt (JArr xs) = JStr (to_string rt (JArr xs))"
| "to_primitive rt (JObj kvs) = JStr (to_string rt (JObj kvs))"
| "to_primitive rt v = v"

text \<open>\<open>ToNumber\<close>, through \<open>ToPrimitive\<close> for an object; \<open>None\<close> is NaN.\<close>

fun to_number :: "runtime \<Rightarrow> jsval \<Rightarrow> int option" where
  "to_number rt JUndefined = None"
| "to_number rt JNull = Some 0"
| "to_number rt (JBool b) = Some (if b then 1 else 0)"
| "to_number rt (JNum n) = Some n"
| "to_number rt JNaN = None"
| "to_number rt (JStr s) = string_to_number rt s"
| "to_number rt (JDate t) = Some t"
| "to_number rt (JArr xs) = string_to_number rt (to_string rt (JArr xs))"
| "to_number rt (JObj kvs) = string_to_number rt (to_string rt (JObj kvs))"

fun code_unit_less :: "string \<Rightarrow> string \<Rightarrow> bool" where
  "code_unit_less [] [] = False"
| "code_unit_less [] (y # ys) = True"
| "code_unit_less (x # xs) [] = False"
| "code_unit_less (x # xs) (y # ys) =
     ((of_char x :: nat) < of_char y \<or> (x = y \<and> code_unit_less xs ys))"

text \<open>The abstract relational comparison \<open>x < y\<close>: \<open>Some b\<close> for true or false, \<open>None\<close> for
  undefined (a NaN operand).\<close>

definition relational :: "runtime \<Rightarrow> jsval \<Rightarrow> jsval \<Rightarrow> bool option" where
  "relational rt x y =
     (case (to_primitive rt x, to_primitive rt y) of
        (JStr s, JStr t) \<Rightarrow> Some (code_unit_less s t)
      | (p, q) \<Rightarrow>
          (case (to_number rt p, to_number rt q) of
             (Some a, Some b) \<Rightarrow> Some (a < b)
           | _ \<Rightarrow> None))"

definition js_lt :: "runtime \<Rightarrow> jsval \<Rightarrow> jsval \<Rightarrow> bool" where
  "js_lt rt a b = (relational rt a b = Some True)"

definition js_gt :: "runtime \<Rightarrow> jsval \<Rightarrow> jsval \<Rightarrow> bool" where
  "js_gt rt a b = (relational rt b a = Some True)"

definition js_le :: "runtime \<Rightarrow> jsval \<Rightarrow> jsval \<Rightarrow> bool" where
  "js_le rt a b = (relational rt b a = Some False)"

definition js_ge :: "runtime \<Rightarrow> jsval \<Rightarrow> jsval \<Rightarrow> bool" where
  "js_ge rt a b = (relational rt a b = Some False)"

text \<open>
  \<open>a === b\<close>. Primitives are compared by value, and NaN differs from itself. Two objects
  are strictly equal only when they are one and the same object; the operand of a query,
  of an \<open>enum\<close> or of \<open>$pull\<close> is an object of the caller, distinct from every stored one,
  so the comparison of object values is false here. \<open>Array.prototype.includes\<close> compares
  in the same way, except that NaN is found.
\<close>

definition strict_eq :: "jsval \<Rightarrow> jsval \<Rightarrow> bool" where
  "strict_eq a b = (\<not> is_object a \<and> \<not> is_object b \<and> a \<noteq> JNaN \<and> a = b)"

definition same_value_zero :: "jsval \<Rightarrow> jsval \<Rightarrow> bool" where
  "same_value_zero a b = (\<not> is_object a \<and> \<not> is_object b \<and> a = b)"

text \<open>\<open>Object.entries(v)\<close> for a value that is not null or undefined.\<close>

fun indexed_from :: "nat \<Rightarrow> jsval list \<Rightarrow> (string \<times> jsval) list" where
  "indexed_from i [] = []"
| "indexed_from i (x # xs) = (nat_to_string i, x) # indexed_from (Suc i) xs"

fun object_entries :: "jsval \<Rightarrow> (string \<times> jsval) list" where
  "object_entries (JObj kvs) = kvs"
| "object_entries (JArr xs) = indexed_from 0 xs"
| "object_entries (JStr s) = indexed_from 0 (map (\<lambda>c. JStr [c]) s)"
| "object_entries v = []"

text \<open>\<open>v[name]\<close> for an object \<open>v\<close>: an own property, or undefined.\<close>

fun lookup :: "(string \<times> jsval) list \<Rightarrow> string \<Rightarrow> jsval" where
  "lookup [] k = JUndefined"
| "lookup ((k', v) # kvs) k = (if k' = k then v else lookup kvs k)"

fun get_prop :: "jsval \<Rightarrow> string \<Rightarrow> jsval" where
  "get_prop (JObj kvs) k = lookup kvs k"
| "get_prop (JArr xs) k =
     (if k = ''length'' then JNum (int (length xs)) else lookup (indexed_from 0 xs) k)"
| "get_prop v k = JUndefined"

section \<open>Query evaluation (VerusDB.js)\<close>

text \<open>\<open>field.split('.')\<close>.\<close>

fun split_dot :: "string \<Rightarrow> string list" where
  "split_dot [] = [[]]"
| "split_dot (c # cs) =
     (if c = CHR ''.'' then [] # split_dot cs
      else (case split_dot cs of p # ps \<Rightarrow> (c # p) # ps | [] \<Rightarrow> [[c]]))"

fun walk_path :: "jsval \<Rightarrow> string list \<Rightarrow> jsval" where
  "walk_path v [] = v"
| "walk_path v (part # parts) =
     (if truthy v \<and> is_object v then walk_path (get_prop v part) parts else JUndefined)"

definition getFieldValue :: "jsval \<Rightarrow> string \<Rightarrow> jsval" where
  "getFieldValue document field = walk_path document (split_dot field)"

text \<open>\<open>new RegExp(opValue)\<close> followed by \<open>regex.test(value)\<close>: the pattern is the operand
  as a string (the empty pattern for undefined), the subject is the value as a string.\<close>

definition regex_test :: "runtime \<Rightarrow> jsval \<Rightarrow> jsval \<Rightarrow> error + bool" where
  "regex_test rt opValue v =
     (let pattern = (if opValue = JUndefined then [] else to_string rt opValue) in
      case regexp_compile rt pattern of
        None \<Rightarrow> Inl (SyntaxError pattern)
      | Some re \<Rightarrow> Inr (re (to_string rt v)))"

definition array_includes :: "jsval \<Rightarrow> jsval \<Rightarrow> bool" where
  "array_includes arr v = (case arr of JArr xs \<Rightarrow> list_ex (\<lambda>x. same_value_zero x v) xs | _ \<Rightarrow> False)"

fun is_array :: "jsval \<Rightarrow> bool" where
  "is_array (JArr xs) = True"
| "is_array v = False"

text \<open>\<open>matchesOperator\<close>: the loop over the entries of the operator object, leaving at
  the first entry that fails or throws.\<close>

fun matchesOperator :: "runtime \<Rightarrow> jsval \<Rightarrow> (string \<times> jsval) list \<Rightarrow> error + bool" where
  "matchesOperator rt v [] = Inr True"
| "matchesOperator rt v ((op, opValue) # rest) =
     (if op = ''$eq'' then
        (if \<not> strict_eq v opValue then Inr False else matchesOperator rt v rest)
      else if op = ''$ne'' then
        (if strict_eq v opValue then Inr False else matchesOperator rt v rest)
      else if op = ''$gt'' then
        (if js_le rt v opValue then Inr False else matchesOperator rt v rest)
      else if op = ''$gte'' then
        (if js_lt rt v opValue then Inr False else matchesOperator rt v rest)
      else if op = ''$lt'' then
        (if js_ge rt v opValue then Inr False else matchesOperator rt v rest)
      else if op = ''$lte'' then
        (if js_gt rt v opValue then Inr False else matchesOperator rt v rest)
      else if op = ''$in'' then
        (if \<not> is_array opValue \<or> \<not> array_includes opValue v then Inr False
         else matchesOperator rt v rest)
      else if op = ''$nin'' then
        (if \<not> is_array opValue \<or> array_includes opValue v then Inr False
         else matchesOperator rt v rest)
      else if op = ''$regex'' then
        (case regex_test rt opValue v of
           Inl e \<Rightarrow> Inl e
         | Inr m \<Rightarrow> (if \<not> m then Inr False else matchesOperator rt v rest))
      else Inl (UnsupportedOperator op))"

text \<open>\<open>matchesQuery\<close>: the loop over the entries of the query.\<close>

fun matchesEntries :: "runtime \<Rightarrow> jsval \<Rightarrow> (string \<times> jsval) list \<Rightarrow> error + bool" where
  "matchesEntries rt document [] = Inr True"
| "matchesEntries rt document ((field, v) # rest) =
     (let docValue = getFieldValue document field in
      if is_object v then
        (case matchesOperator rt docValue (object_entries v) of
           Inl e \<Rightarrow> Inl e
         | Inr m \<Rightarrow> (if \<not> m then Inr False else matchesEntries rt document rest))
      else
        (if \<not> strict_eq docValue v then Inr False else matchesEntries rt document rest))"

definition matchesQuery :: "runtime \<Rightarrow> jsval \<Rightarrow> jsval \<Rightarrow> error + bool" where
  "matchesQuery rt document query =
     (if query = JUndefined \<or> query = JNull
      then Inl (TypeError ''Cannot convert undefined or null to object'')
      else matchesEntries rt document (object_entries query))"


subsection \<open>Sorting (sortDocuments)\<close>

text \<open>The comparator of \<open>sortDocuments\<close>: the first sort key on which the two documents
  compare as different decides.\<close>

fun compare_docs :: "runtime \<Rightarrow> (string \<times> jsval) list \<Rightarrow> jsval \<Rightarrow> jsval \<Rightarrow> int" where
  "compare_docs rt [] a b = 0"
| "compare_docs rt ((field, direction) # rest) a b =
     (let aValue = getFieldValue a field;
          bValue = getFieldValue b field;
          comparison = (if js_lt rt aValue bValue then - 1
                        else if js_gt rt aValue bValue then 1 else (0::int));
          comparison' = (if strict_eq direction (JNum (- 1)) then - comparison else comparison)
      in if comparison' \<noteq> 0 then comparison' else compare_docs rt rest a b)"

text \<open>
  \<open>documents.sort(comparator)\<close> is the sort of the runtime. The language fixes its result
  when the comparator is a consistent comparison of the elements: reflexive and symmetric
  in its zero results, and transitive in its zero, negative and positive results. The
  result is then a permutation of the elements in which no element comes before one that
  the comparator puts before it, equal ones in their original order (the sort is stable).
  For any other comparator the order is left to the implementation.
\<close>

definition sortDocuments :: "runtime \<Rightarrow> jsval list \<Rightarrow> jsval \<Rightarrow> jsval list" where
  "sortDocuments rt documents sort_spec =
     array_sort rt (compare_docs rt (object_entries sort_spec)) documents"

definition consistent_comparator :: "('a \<Rightarrow> 'a \<Rightarrow> int) \<Rightarrow> 'a list \<Rightarrow> bool" where
  "consistent_comparator cmp xs =
     list_all (\<lambda>a. cmp a a = 0
        \<and> list_all (\<lambda>b. (cmp a b = 0 \<longrightarrow> cmp b a = 0)
             \<and> list_all (\<lambda>c. (cmp a b = 0 \<and> cmp b c = 0 \<longrightarrow> cmp a c = 0)
                            \<and> (cmp a b < 0 \<and> cmp b c < 0 \<longrightarrow> cmp a c < 0)
                            \<and> (cmp a b > 0 \<and> cmp b c > 0 \<longrightarrow> cmp a c > 0)) xs) xs) xs"

definition in_sort_order :: "('a \<Rightarrow> 'a \<Rightarrow> int) \<Rightarrow> 'a list \<Rightarrow> 'a list \<Rightarrow> bool" where
  "in_sort_order cmp xs ys = (mset ys = mset xs \<and> sorted_wrt (\<lambda>a b. \<not> cmp b a < 0) ys)"

text \<open>The runtime sorts as the language requires, for one comparator and one list; the
  order of the elements that compare equal is left open.\<close>

definition sort_conforms :: "runtime \<Rightarrow> (jsval \<Rightarrow> jsval \<Rightarrow> int) \<Rightarrow> jsval list \<Rightarrow> bool" where
  "sort_conforms rt cmp xs =
     (consistent_comparator cmp xs \<longrightarrow> in_sort_order cmp xs (array_sort rt cmp xs))"

text \<open>The insertion sort, which is stable: the sort of the sample runtime.\<close>

fun insert_sorted :: "('a \<Rightarrow> 'a \<Rightarrow> int) \<Rightarrow> 'a \<Rightarrow> 'a list \<Rightarrow> 'a list" where
  "insert_sorted cmp x [] = [x]"
| "insert_sorted cmp x (y # ys) =
     (if cmp x y \<le> 0 then x # y # ys else y # insert_sorted cmp x ys)"

definition stable_sort :: "('a \<Rightarrow> 'a \<Rightarrow> int) \<Rightarrow> 'a list \<Rightarrow> 'a list" where
  "stable_sort cmp xs = foldr (insert_sorted cmp) xs []"

section \<open>Schema and validation (Schema.js)\<close>

text \<open>
  A field definition as \<open>validateFieldDefinition\<close> leaves it. A function (a generator of
  default values, a validator) is kept with its source text, which is what the schema
  stores of it; a generator is a function of the clock.
\<close>

datatype default_spec = DefaultValue jsval | DefaultFunction string "int \<Rightarrow> jsval"

record field_def =
  fd_type :: string
  fd_required :: bool
  fd_encrypted :: bool
  fd_unique :: bool
  fd_index :: bool
  fd_default :: default_spec
  fd_validate :: "(string \<times> (jsval \<Rightarrow> jsval)) option"
  fd_min :: jsval
  fd_max :: jsval
  fd_minLength :: jsval
  fd_maxLength :: jsval
  fd_enum :: "jsval list option"
  fd_ref :: jsval

type_synonym schema = "(string \<times> field_def) list"

text \<open>\<open>isValidType\<close>. No value of the model is a \<open>Buffer\<close>.\<close>

definition isValidType :: "runtime \<Rightarrow> jsval \<Rightarrow> string \<Rightarrow> bool" where
  "isValidType rt v t =
     (if t = ''string'' then (case v of JStr s \<Rightarrow> True | _ \<Rightarrow> False)
      else if t = ''number'' then (case v of JNum n \<Rightarrow> True | _ \<Rightarrow> False)
      else if t = ''boolean'' then (case v of JBool b \<Rightarrow> True | _ \<Rightarrow> False)
      else if t = ''date'' then
        (case v of JDate d \<Rightarrow> True | JStr s \<Rightarrow> date_parse rt s \<noteq> None | _ \<Rightarrow> False)
      else if t = ''object'' then (case v of JObj kvs \<Rightarrow> True | JDate d \<Rightarrow> True | _ \<Rightarrow> False)
      else if t = ''array'' then is_array v
      else False)"

definition value_length :: "jsval \<Rightarrow> jsval" where
  "value_length v =
     (case v of JStr s \<Rightarrow> JNum (int (length s)) | JArr xs \<Rightarrow> JNum (int (length xs))
      | _ \<Rightarrow> JUndefined)"

definition validateFieldValue :: "runtime \<Rightarrow> string \<Rightarrow> jsval \<Rightarrow> field_def \<Rightarrow> error + unit" where
  "validateFieldValue rt fieldName v fd =
     (if \<not> isValidType rt v (fd_type fd) then
        Inl (ValidationError (''Field '' @ fieldName @ '' must be of type '' @ fd_type fd))
      else if (case fd_enum fd of None \<Rightarrow> False
               | Some allowed \<Rightarrow> \<not> list_ex (\<lambda>x. same_value_zero x v) allowed) then
        Inl (ValidationError (''Field '' @ fieldName @ '' must be one of the enum''))
      else if fd_type fd = ''number'' \<and> fd_min fd \<noteq> JUndefined \<and> js_lt rt v (fd_min fd) then
        Inl (ValidationError (''Field '' @ fieldName @ '' must be >= min''))
      else if fd_type fd = ''number'' \<and> fd_max fd \<noteq> JUndefined \<and> js_gt rt v (fd_max fd) then
        Inl (ValidationError (''Field '' @ fieldName @ '' must be <= max''))
      else if (fd_type fd = ''string'' \<or> fd_type fd = ''array'') \<and> fd_minLength fd \<noteq> JUndefined
              \<and> js_lt rt (value_length v) (fd_minLength fd) then
        Inl (ValidationError (''Field '' @ fieldName @ '' must have length >= minLength''))
      else if (fd_type fd = ''string'' \<or> fd_type fd = ''array'') \<and> fd_maxLength fd \<noteq> JUndefined
              \<and> js_gt rt (value_length v) (fd_maxLength fd) then
        Inl (ValidationError (''Field '' @ fieldName @ '' must have length <= maxLength''))
      else
        (case fd_validate fd of
           None \<Rightarrow> Inr ()
         | Some (src, f) \<Rightarrow>
             (if f v \<noteq> JBool True then
                Inl (ValidationError (''Field '' @ fieldName @ '' validation failed''))
              else Inr ())))"

text \<open>
  The own properties of an object are enumerated with the array indices first, in
  ascending order, and the other names after them in the order of their creation. An
  array index is the canonical decimal form of an integer from 0 to \<open>2\<^sup>3\<^sup>2 - 2\<close>.
\<close>

text \<open>The position of a character in a string, counted from \<open>i\<close>.\<close>

fun position :: "char \<Rightarrow> string \<Rightarrow> nat \<Rightarrow> nat option" where
  "position c [] i = None"
| "position c (x # xs) i = (if x = c then Some i else position c xs (Suc i))"

fun digits_to_int :: "string \<Rightarrow> int \<Rightarrow> int option" where
  "digits_to_int [] acc = Some acc"
| "digits_to_int (c # cs) acc =
     (case position c ''0123456789'' 0 of
        None \<Rightarrow> None
      | Some d \<Rightarrow> digits_to_int cs (10 * acc + int d))"

definition array_index :: "string \<Rightarrow> int option" where
  "array_index s =
     (if s = [] \<or> 10 < length s \<or> (hd s = CHR ''0'' \<and> s \<noteq> ''0'') then None
      else (case digits_to_int s 0 of
              None \<Rightarrow> None
            | Some n \<Rightarrow> (if n < 4294967295 then Some n else None)))"

text \<open>The name \<open>k\<close> is enumerated before the name \<open>k'\<close> whenever it is created.\<close>

definition enumerated_before :: "string \<Rightarrow> string \<Rightarrow> bool" where
  "enumerated_before k k' =
     (case array_index k of
        None \<Rightarrow> False
      | Some i \<Rightarrow> (case array_index k' of None \<Rightarrow> True | Some j \<Rightarrow> i < j))"

text \<open>\<open>obj[k] = v\<close> and \<open>delete obj[k]\<close> on the property list of an object: the value of a
  property that exists is replaced where it is, a new property takes its place in the
  enumeration.\<close>

fun replace_prop :: "(string \<times> jsval) list \<Rightarrow> string \<Rightarrow> jsval \<Rightarrow> (string \<times> jsval) list" where
  "replace_prop [] k v = []"
| "replace_prop ((k', v') # kvs) k v =
     (if k' = k then (k, v) # kvs else (k', v') # replace_prop kvs k v)"

fun add_prop :: "(string \<times> jsval) list \<Rightarrow> string \<Rightarrow> jsval \<Rightarrow> (string \<times> jsval) list" where
  "add_prop [] k v = [(k, v)]"
| "add_prop ((k', v') # kvs) k v =
     (if enumerated_before k k' then (k, v) # (k', v') # kvs else (k', v') # add_prop kvs k v)"

definition set_prop :: "(string \<times> jsval) list \<Rightarrow> string \<Rightarrow> jsval \<Rightarrow> (string \<times> jsval) list" where
  "set_prop kvs k v =
     (if List.member (map fst kvs) k then replace_prop kvs k v else add_prop kvs k v)"

definition delete_prop :: "(string \<times> jsval) list \<Rightarrow> string \<Rightarrow> (string \<times> jsval) list" where
  "delete_prop kvs k = filter (\<lambda>kv. fst kv \<noteq> k) kvs"

text \<open>The first loop of \<open>validateDocument\<close>, over the fields of the schema: the default
  of an absent field, the required check, the validation of the value.\<close>

fun validate_fields ::
  "runtime \<Rightarrow> int \<Rightarrow> jsval \<Rightarrow> schema \<Rightarrow> (string \<times> jsval) list \<Rightarrow> error + (string \<times> jsval) list"
where
  "validate_fields rt now document [] validatedDoc = Inr validatedDoc"
| "validate_fields rt now document ((fieldName, fd) # rest) validatedDoc =
     (case (if get_prop document fieldName \<noteq> JUndefined then Inr (get_prop document fieldName)
            else (case fd_default fd of
                    DefaultFunction src f \<Rightarrow> Inr (f now)
                  | DefaultValue d \<Rightarrow>
                      (if d \<noteq> JUndefined then Inr d
                       else if fd_required fd then
                         Inl (ValidationError (''Required field '' @ fieldName @ '' is missing''))
                       else Inr JUndefined))) of
        Inl e \<Rightarrow> Inl e
      | Inr v \<Rightarrow>
          (if v \<noteq> JUndefined then
             (case validateFieldValue rt fieldName v fd of
                Inl e \<Rightarrow> Inl e
              | Inr u \<Rightarrow> validate_fields rt now document rest (set_prop validatedDoc fieldName v))
           else validate_fields rt now document rest validatedDoc))"

definition systemFields :: "string list" where
  "systemFields = [''_id'', ''createdAt'', ''updatedAt'']"

text \<open>The second loop: a field of the document that is neither in the schema nor a system
  field.\<close>

fun first_extra_field :: "schema \<Rightarrow> string list \<Rightarrow> string option" where
  "first_extra_field schema [] = None"
| "first_extra_field schema (fieldName # rest) =
     (if map_of schema fieldName = None \<and> \<not> List.member systemFields fieldName
      then Some fieldName else first_extra_field schema rest)"

text \<open>The third loop: the system fields of the document are carried over.\<close>

fun preserve_system :: "jsval \<Rightarrow> string list \<Rightarrow> (string \<times> jsval) list \<Rightarrow> (string \<times> jsval) list" where
  "preserve_system document [] validatedDoc = validatedDoc"
| "preserve_system document (fieldName # rest) validatedDoc =
     (if get_prop document fieldName \<noteq> JUndefined
      then preserve_system document rest (set_prop validatedDoc fieldName (get_prop document fieldName))
      else preserve_system document rest validatedDoc)"

text \<open>\<open>validateDocument\<close>; \<open>new_id\<close> is what \<open>generateId\<close> returns when it is called.\<close>

definition validateDocument :: "runtime \<Rightarrow> int \<Rightarrow> string \<Rightarrow> jsval \<Rightarrow> schema \<Rightarrow> error + jsval" where
  "validateDocument rt now new_id document schema =
     (if \<not> is_object document then Inl (ValidationError ''Document must be an object'')
      else
        (case validate_fields rt now document schema [] of
           Inl e \<Rightarrow> Inl e
         | Inr d1 \<Rightarrow>
             (case first_extra_field schema (map fst (object_entries document)) of
                Some fieldName \<Rightarrow>
                  Inl (ValidationError (''Field '' @ fieldName @ '' is not defined in schema''))
              | None \<Rightarrow>
                  (let d2 = preserve_system document systemFields d1;
                       d3 = (if \<not> truthy (lookup d2 ''_id'') then set_prop d2 ''_id'' (JStr new_id) else d2);
                       d4 = (if \<not> truthy (lookup d3 ''createdAt'')
                             then set_prop d3 ''createdAt'' (JDate now) else d3)
                   in Inr (JObj (set_prop d4 ''updatedAt'' (JDate now)))))))"

section \<open>Field encryption (encryption module)\<close>

text \<open>\<open>encrypt\<close> draws 16 random bytes for the initialisation vector; they are the
  argument \<open>iv\<close>.\<close>

definition encrypt :: "libs \<Rightarrow> bytes \<Rightarrow> bytes \<Rightarrow> bytes \<Rightarrow> bytes \<times> bytes" where
  "encrypt lb iv dat key = (aes_encrypt lb key iv dat, iv)"

definition decrypt :: "libs \<Rightarrow> bytes \<times> bytes \<Rightarrow> bytes \<Rightarrow> error + bytes" where
  "decrypt lb encryptedData key =
     (case aes_decrypt lb key (snd encryptedData) (fst encryptedData) of
        None \<Rightarrow> Inl DecryptionFailed
      | Some d \<Rightarrow> Inr d)"

definition encryptField :: "libs \<Rightarrow> bytes \<Rightarrow> jsval \<Rightarrow> bytes \<Rightarrow> string" where
  "encryptField lb iv v key =
     (let encrypted = encrypt lb iv (json_write lb v) key
      in base64_encode lb (snd encrypted @ fst encrypted))"

definition ivLength :: nat where
  "ivLength = 16"

definition decryptField :: "libs \<Rightarrow> jsval \<Rightarrow> bytes \<Rightarrow> error + jsval" where
  "decryptField lb encryptedValue key =
     (case encryptedValue of
        JStr s \<Rightarrow>
          (let buffer = base64_decode lb s;
               iv = take ivLength buffer;
               encrypted = drop ivLength buffer
           in case decrypt lb (encrypted, iv) key of
                Inl e \<Rightarrow> Inl e
              | Inr decrypted \<Rightarrow>
                  (case json_read lb decrypted of
                     None \<Rightarrow> Inl (SyntaxError ''JSON.parse'')
                   | Some v \<Rightarrow> Inr v))
      | _ \<Rightarrow> Inl (TypeError ''Buffer.from''))"


section \<open>Storage (storage module)\<close>

subsection \<open>Dates and the JSON image of a value\<close>

definition pad :: "nat \<Rightarrow> nat \<Rightarrow> string" where
  "pad w n = replicate (w - length (nat_to_string n)) (CHR ''0'') @ nat_to_string n"

text \<open>The civil date (year, month, day) of a day number counted from 1970-01-01.\<close>

definition civil_from_days :: "int \<Rightarrow> int \<times> nat \<times> nat" where
  "civil_from_days days =
     (let z = days + 719468;
          era = z div 146097;
          doe = z mod 146097;
          yoe = (doe - doe div 1460 + doe div 36524 - doe div 146096) div 365;
          doy = doe - (365 * yoe + yoe div 4 - yoe div 100);
          mp = (5 * doy + 2) div 153;
          d = doy - (153 * mp + 2) div 5 + 1;
          m = (if mp < 10 then mp + 3 else mp - 9);
          y = yoe + era * 400 + (if m \<le> 2 then 1 else 0)
      in (y, nat m, nat d))"

text \<open>\<open>Date.prototype.toISOString\<close> of a valid time value.\<close>

definition toISOString :: "int \<Rightarrow> string" where
  "toISOString t =
     (let days = t div 86400000;
          ms = t mod 86400000;
          ymd = civil_from_days days;
          y = fst ymd;
          year = (if 0 \<le> y \<and> y \<le> 9999 then pad 4 (nat y)
                  else (if y < 0 then ''-'' else ''+'') @ pad 6 (nat \<bar>y\<bar>))
      in year @ ''-'' @ pad 2 (fst (snd ymd)) @ ''-'' @ pad 2 (snd (snd ymd)) @ ''T''
         @ pad 2 (nat (ms div 3600000)) @ '':'' @ pad 2 (nat (ms div 60000 mod 60)) @ '':''
         @ pad 2 (nat (ms div 1000 mod 60)) @ ''.'' @ pad 3 (nat (ms mod 1000)) @ ''Z'')"

text \<open>
  What \<open>JSON.parse(JSON.stringify(v))\<close> returns for a value \<open>v\<close> other than undefined: a
  \<open>Date\<close> has become its ISO string, NaN has become null, an undefined element of an
  array has become null and an undefined property has gone.
\<close>

fun json_value :: "jsval \<Rightarrow> jsval"
  and json_elements :: "jsval list \<Rightarrow> jsval list"
  and json_props :: "(string \<times> jsval) list \<Rightarrow> (string \<times> jsval) list"
where
  "json_value JUndefined = JNull"
| "json_value JNull = JNull"
| "json_value (JBool b) = JBool b"
| "json_value (JNum n) = JNum n"
| "json_value JNaN = JNull"
| "json_value (JStr s) = JStr s"
| "json_value (JDate t) = JStr (toISOString t)"
| "json_value (JArr xs) = JArr (json_elements xs)"
| "json_value (JObj kvs) = JObj (json_props kvs)"
| "json_elements [] = []"
| "json_elements (x # xs) = json_value x # json_elements xs"
| "json_props [] = []"
| "json_props ((k, v) # kvs) =
     (if v = JUndefined then json_props kvs else (k, json_value v) # json_props kvs)"

subsection \<open>Maps\<close>

text \<open>A \<open>Map\<close> is the list of its entries in insertion order: \<open>set\<close> replaces the value
  of a key that is present and appends a new key, \<open>delete\<close> removes the entry.\<close>

fun map_set :: "('k \<times> 'v) list \<Rightarrow> 'k \<Rightarrow> 'v \<Rightarrow> ('k \<times> 'v) list" where
  "map_set [] k v = [(k, v)]"
| "map_set ((k', v') # kvs) k v =
     (if k' = k then (k, v) # kvs else (k', v') # map_set kvs k v)"

definition map_delete :: "('k \<times> 'v) list \<Rightarrow> 'k \<Rightarrow> ('k \<times> 'v) list" where
  "map_delete m k = filter (\<lambda>kv. fst kv \<noteq> k) m"

definition map_has :: "('k \<times> 'v) list \<Rightarrow> 'k \<Rightarrow> bool" where
  "map_has m k = (map_of m k \<noteq> None)"

text \<open>\<open>Object.fromEntries\<close> of a map with string keys.\<close>

definition fromEntries :: "(string \<times> jsval) list \<Rightarrow> jsval" where
  "fromEntries entries = JObj (foldl (\<lambda>acc kv. set_prop acc (fst kv) (snd kv)) [] entries)"

fun starts_with :: "string \<Rightarrow> string \<Rightarrow> bool" where
  "starts_with s [] = True"
| "starts_with [] (p # ps) = False"
| "starts_with (c # cs) (p # ps) = (c = p \<and> starts_with cs ps)"

subsection \<open>The state of the storage object\<close>

text \<open>The header dates are \<open>None\<close> for an invalid \<open>Date\<close>; \<open>disk\<close> is the content of the
  database file, \<open>None\<close> while there is no file. The file system does not fail.\<close>

record storage =
  s_collections :: "(string \<times> jsval) list"
  s_indexes :: "(string \<times> jsval) list"
  operationLog :: jsval
  header_created :: "int option"
  header_modified :: "int option"
  salt :: bytes
  encryptionKey :: bytes
  disk :: "bytes option"

definition logOperation :: "storage \<Rightarrow> string \<Rightarrow> jsval \<Rightarrow> int \<Rightarrow> error + storage" where
  "logOperation st operation details now =
     (case operationLog st of
        JArr entries \<Rightarrow>
          (let pushed = entries @ [JObj [(''operation'', JStr operation), (''details'', details),
                                         (''timestamp'', JDate now)]]
           in Inr (st\<lparr>operationLog :=
                 JArr (if length pushed > 1000 then drop (length pushed - 1000) pushed
                       else pushed)\<rparr>))
      | _ \<Rightarrow> Inl (TypeError ''operationLog.push''))"

definition setCollection :: "storage \<Rightarrow> string \<Rightarrow> jsval \<Rightarrow> int \<Rightarrow> error + storage" where
  "setCollection st name dat now =
     logOperation (st\<lparr>s_collections := map_set (s_collections st) name dat\<rparr>)
       ''setCollection'' (JObj [(''name'', JStr name), (''timestamp'', JDate now)]) now"

definition deleteCollection :: "storage \<Rightarrow> string \<Rightarrow> int \<Rightarrow> error + storage" where
  "deleteCollection st name now =
     logOperation
       (st\<lparr>s_collections := map_delete (s_collections st) name,
           s_indexes := filter (\<lambda>kv. \<not> starts_with (fst kv) (name @ ''.'')) (s_indexes st)\<rparr>)
       ''deleteCollection'' (JObj [(''name'', JStr name), (''timestamp'', JDate now)]) now"

definition setIndex :: "storage \<Rightarrow> string \<Rightarrow> jsval \<Rightarrow> int \<Rightarrow> error + storage" where
  "setIndex st key indexData now =
     logOperation (st\<lparr>s_indexes := map_set (s_indexes st) key indexData\<rparr>)
       ''setIndex'' (JObj [(''key'', JStr key), (''timestamp'', JDate now)]) now"

definition deleteIndex :: "storage \<Rightarrow> string \<Rightarrow> int \<Rightarrow> error + storage" where
  "deleteIndex st key now =
     logOperation (st\<lparr>s_indexes := map_delete (s_indexes st) key\<rparr>)
       ''deleteIndex'' (JObj [(''key'', JStr key), (''timestamp'', JDate now)]) now"

definition serializeData :: "storage \<Rightarrow> error + jsval" where
  "serializeData st =
     (case (header_created st, header_modified st) of
        (Some created, Some modified) \<Rightarrow>
          Inr (JObj [(''header'', JObj [(''created'', JStr (toISOString created)),
                                        (''modified'', JStr (toISOString modified))]),
                     (''collections'', fromEntries (s_collections st)),
                     (''indexes'', fromEntries (s_indexes st)),
                     (''operationLog'', operationLog st)])
      | _ \<Rightarrow> Inl (RangeError ''Invalid time value''))"

subsection \<open>The container\<close>

text \<open>The four bytes of an unsigned 32-bit number, the least significant first.\<close>

definition le32 :: "nat \<Rightarrow> bytes" where
  "le32 n = [of_int (int n), of_int (int n div 256), of_int (int n div 65536),
             of_int (int n div 16777216)]"

definition writeUInt32LE :: "nat \<Rightarrow> error + bytes" where
  "writeUInt32LE n =
     (if int n < 4294967296 then Inr (le32 n) else Inl (RangeError ''value out of range''))"

definition readUInt32LE :: "bytes \<Rightarrow> nat \<Rightarrow> error + nat" where
  "readUInt32LE buf offset =
     (if offset + 4 \<le> length buf
      then Inr (nat (uint (buf ! offset) + 256 * uint (buf ! (offset + 1))
                     + 65536 * uint (buf ! (offset + 2)) + 16777216 * uint (buf ! (offset + 3))))
      else Inl (RangeError ''offset out of range''))"

text \<open>\<open>buf.slice(start, stop)\<close> for offsets that are not negative, and \<open>src.copy(buf,
  offset)\<close>: both stop at the end of the buffer.\<close>

definition buffer_slice :: "bytes \<Rightarrow> nat \<Rightarrow> nat \<Rightarrow> bytes" where
  "buffer_slice buf start stop = take (stop - start) (drop start buf)"

definition copy_into :: "bytes \<Rightarrow> nat \<Rightarrow> bytes \<Rightarrow> bytes" where
  "copy_into buf offset src =
     take offset buf @ take (length buf - offset) src @ drop (offset + length src) buf"

definition write_u32_at :: "bytes \<Rightarrow> nat \<Rightarrow> nat \<Rightarrow> error + bytes" where
  "write_u32_at buf n offset =
     (case writeUInt32LE n of Inl e \<Rightarrow> Inl e | Inr bs \<Rightarrow> Inr (copy_into buf offset bs))"

definition string_bytes :: "string \<Rightarrow> bytes" where
  "string_bytes s = map (\<lambda>c. of_nat (of_char c)) s"

definition bytes_string :: "bytes \<Rightarrow> string" where
  "bytes_string bs = map (\<lambda>b. char_of (unat b)) bs"

definition magic :: bytes where
  "magic = string_bytes ''VDB1''"

definition generateChecksum :: "libs \<Rightarrow> bytes \<Rightarrow> string" where
  "generateChecksum lb dat = sha256_hex lb dat"

definition verifyChecksum :: "libs \<Rightarrow> bytes \<Rightarrow> string \<Rightarrow> bool" where
  "verifyChecksum lb dat expectedChecksum = (generateChecksum lb dat = expectedChecksum)"

text \<open>\<open>buildFileBuffer\<close>: the buffer of the total size (its bytes before they are written
  are taken as zero), filled field by field at the running offset.\<close>

definition buildFileBuffer :: "libs \<Rightarrow> storage \<Rightarrow> bytes \<times> bytes \<Rightarrow> error + bytes" where
  "buildFileBuffer lb st encryptedData =
     (let encrypted = fst encryptedData;
          iv = snd encryptedData;
          headerSize = 4 + 4;
          saltSize = 4 + length (salt st);
          checksumSize = 4 + 64;
          dataSize = 4 + 16 + length encrypted;
          totalSize = headerSize + saltSize + checksumSize + dataSize;
          b0 = copy_into (replicate totalSize 0) 0 magic
      in case write_u32_at b0 1 4 of Inl e \<Rightarrow> Inl e | Inr b1 \<Rightarrow>
         (case write_u32_at b1 (length (salt st)) 8 of Inl e \<Rightarrow> Inl e | Inr b2 \<Rightarrow>
         (let b3 = copy_into b2 12 (salt st);
              offset = 12 + length (salt st);
              checksum = generateChecksum lb encrypted
          in case write_u32_at b3 64 offset of Inl e \<Rightarrow> Inl e | Inr b4 \<Rightarrow>
             (let b5 = copy_into b4 (offset + 4) (take 64 (string_bytes checksum))
              in case write_u32_at b5 (16 + length encrypted) (offset + 68) of
                   Inl e \<Rightarrow> Inl e
                 | Inr b6 \<Rightarrow>
                     Inr (copy_into (copy_into b6 (offset + 72) iv) (offset + 88) encrypted)))))"

text \<open>\<open>_performSave\<close>: the image, compressed, encrypted under the key of the storage with
  the initialisation vector drawn for this save, written to the file.\<close>

definition saveToFile :: "libs \<Rightarrow> bytes \<Rightarrow> int \<Rightarrow> storage \<Rightarrow> error + storage" where
  "saveToFile lb iv now st =
     (case serializeData st of
        Inl e \<Rightarrow> Inl (SaveFailed e)
      | Inr dat \<Rightarrow>
          (let compressedData = gzip lb (json_write lb dat);
               encryptedData = encrypt lb iv compressedData (encryptionKey st)
           in case buildFileBuffer lb st encryptedData of
                Inl e \<Rightarrow> Inl (SaveFailed e)
              | Inr fileBuffer \<Rightarrow> Inr (st\<lparr>disk := Some fileBuffer, header_modified := Some now\<rparr>)))"

text \<open>\<open>new Date(v)\<close>: the time value, \<open>None\<close> for an invalid date.\<close>

definition new_date :: "runtime \<Rightarrow> jsval \<Rightarrow> int option" where
  "new_date rt v =
     (case v of
        JStr s \<Rightarrow> date_parse rt s
      | JDate t \<Rightarrow> Some t
      | JArr xs \<Rightarrow> date_parse rt (to_string rt v)
      | JObj kvs \<Rightarrow> date_parse rt (to_string rt v)
      | _ \<Rightarrow> to_number rt v)"

text \<open>
  \<open>parseVDBFile\<close> in its three stages: the fields of the container read at the running
  offset (salt, stored checksum, initialisation vector, encrypted data), the payload
  verified, decrypted, decompressed and parsed, and the data structures loaded from the
  parsed image.
\<close>

definition read_container :: "bytes \<Rightarrow> error + bytes \<times> string \<times> bytes \<times> bytes" where
  "read_container fileBuffer =
     (if buffer_slice fileBuffer 0 4 \<noteq> magic then Inl InvalidFormat
      else (case readUInt32LE fileBuffer 4 of Inl e \<Rightarrow> Inl e | Inr version \<Rightarrow>
        (if version \<noteq> 1 then Inl (UnsupportedVersion version)
         else (case readUInt32LE fileBuffer 8 of Inl e \<Rightarrow> Inl e | Inr saltLength \<Rightarrow>
          (case readUInt32LE fileBuffer (12 + saltLength) of Inl e \<Rightarrow> Inl e | Inr checksumLength \<Rightarrow>
            (case readUInt32LE fileBuffer (12 + saltLength + 4 + checksumLength) of
               Inl e \<Rightarrow> Inl e
             | Inr encryptedDataLength \<Rightarrow>
                (let offset = 12 + saltLength + 4 + checksumLength + 4
                 in Inr (buffer_slice fileBuffer 12 (12 + saltLength),
                         bytes_string (buffer_slice fileBuffer (12 + saltLength + 4)
                                         (12 + saltLength + 4 + checksumLength)),
                         buffer_slice fileBuffer offset (offset + 16),
                         buffer_slice fileBuffer (offset + 16)
                           (offset + 16 + encryptedDataLength - 16)))))))))"

definition read_payload :: "libs \<Rightarrow> bytes \<Rightarrow> string \<Rightarrow> bytes \<Rightarrow> bytes \<Rightarrow> error + jsval" where
  "read_payload lb key storedChecksum iv encryptedData =
     (if \<not> verifyChecksum lb encryptedData storedChecksum then Inl IntegrityCheckFailed
      else (case decrypt lb (encryptedData, iv) key of Inl e \<Rightarrow> Inl e | Inr decryptedData \<Rightarrow>
        (case gunzip lb decryptedData of None \<Rightarrow> Inl GunzipFailed | Some decompressedData \<Rightarrow>
          (case json_read lb decompressedData of
             None \<Rightarrow> Inl (SyntaxError ''JSON.parse'')
           | Some jsonData \<Rightarrow> Inr jsonData))))"

definition load_image :: "runtime \<Rightarrow> storage \<Rightarrow> jsval \<Rightarrow> error + storage" where
  "load_image rt st jsonData =
     (if jsonData = JNull \<or> get_prop jsonData ''header'' = JUndefined
         \<or> get_prop jsonData ''header'' = JNull
      then Inl (TypeError ''header'')
      else
        (let header = get_prop jsonData ''header'';
             cs = get_prop jsonData ''collections'';
             ixs = get_prop jsonData ''indexes'';
             oplog = get_prop jsonData ''operationLog''
         in Inr (st\<lparr>header_created := new_date rt (get_prop header ''created''),
                    header_modified := new_date rt (get_prop header ''modified''),
                    s_collections := (if truthy cs then object_entries cs else []),
                    s_indexes := (if truthy ixs then object_entries ixs else []),
                    operationLog := (if truthy oplog then oplog else JArr [])\<rparr>)))"

definition parseVDBFile :: "runtime \<Rightarrow> libs \<Rightarrow> storage \<Rightarrow> bytes \<Rightarrow> string \<Rightarrow> error + storage" where
  "parseVDBFile rt lb st fileBuffer password =
     (case read_container fileBuffer of
        Inl e \<Rightarrow> Inl e
      | Inr (salt', storedChecksum, iv, encryptedData) \<Rightarrow>
          (let key = pbkdf2 lb password salt'
           in case read_payload lb key storedChecksum iv encryptedData of
                Inl e \<Rightarrow> Inl e
              | Inr jsonData \<Rightarrow>
                  load_image rt (st\<lparr>salt := salt', encryptionKey := key\<rparr>) jsonData))"

definition loadFromFile :: "runtime \<Rightarrow> libs \<Rightarrow> storage \<Rightarrow> string \<Rightarrow> error + storage" where
  "loadFromFile rt lb st password =
     (case disk st of
        None \<Rightarrow> Inl (LoadFailed (TypeError ''ENOENT''))
      | Some fileBuffer \<Rightarrow>
          (case parseVDBFile rt lb st fileBuffer password of
             Inl e \<Rightarrow> Inl (LoadFailed e)
           | Inr st' \<Rightarrow> Inr st'))"


section \<open>The engine (VerusDB.js)\<close>

text \<open>
  An index holds, for each key, the set of the ids of the documents with that key, in
  insertion order. A collection holds its schema, the map from \<open>_id\<close> to the stored
  document and its (always empty) index metadata. The engine holds its own maps of
  collections and of indexes next to the storage object.
\<close>

record index =
  ix_field :: string
  ix_unique :: bool
  ix_sparse :: bool
  ix_data :: "(string \<times> jsval list) list"

record collection =
  c_schema :: schema
  c_documents :: "(jsval \<times> jsval) list"
  c_indexes :: jsval

record engine =
  collections :: "(string \<times> collection) list"
  indexes :: "(string \<times> index) list"
  storage :: storage

text \<open>
  What one operation draws from the clock and from the random source: the time, the id
  that \<open>generateId\<close> returns for the \<open>n\<close>-th document the operation validates, the
  initialisation vector drawn to encrypt a field of that document, and the one drawn by
  the save.
\<close>

record entropy =
  now :: int
  fresh_id :: "nat \<Rightarrow> string"
  field_iv :: "nat \<Rightarrow> string \<Rightarrow> bytes"
  save_iv :: bytes

definition getCollection :: "engine \<Rightarrow> string \<Rightarrow> error + collection" where
  "getCollection db name =
     (case map_of (collections db) name of
        None \<Rightarrow> Inl (CollectionError (''Collection '' @ name @ '' does not exist''))
      | Some c \<Rightarrow> Inr c)"

subsection \<open>Documents to and from their stored form\<close>

fun encrypt_fields ::
  "libs \<Rightarrow> bytes \<Rightarrow> (string \<Rightarrow> bytes) \<Rightarrow> schema \<Rightarrow> (string \<times> jsval) list \<Rightarrow> (string \<times> jsval) list"
where
  "encrypt_fields lb key ivs [] processed = processed"
| "encrypt_fields lb key ivs ((fieldName, fd) # rest) processed =
     (if fd_encrypted fd \<and> lookup processed fieldName \<noteq> JUndefined
      then encrypt_fields lb key ivs rest
             (set_prop processed fieldName
                (JStr (encryptField lb (ivs fieldName) (lookup processed fieldName) key)))
      else encrypt_fields lb key ivs rest processed)"

definition processDocumentForStorage ::
  "libs \<Rightarrow> bytes \<Rightarrow> (string \<Rightarrow> bytes) \<Rightarrow> jsval \<Rightarrow> schema \<Rightarrow> jsval" where
  "processDocumentForStorage lb key ivs document schema =
     JObj (encrypt_fields lb key ivs schema (object_entries document))"

fun decrypt_fields ::
  "libs \<Rightarrow> bytes \<Rightarrow> schema \<Rightarrow> (string \<times> jsval) list \<Rightarrow> error + (string \<times> jsval) list"
where
  "decrypt_fields lb key [] processed = Inr processed"
| "decrypt_fields lb key ((fieldName, fd) # rest) processed =
     (if fd_encrypted fd \<and> lookup processed fieldName \<noteq> JUndefined
      then (case decryptField lb (lookup processed fieldName) key of
              Inl e \<Rightarrow> Inl e
            | Inr v \<Rightarrow> decrypt_fields lb key rest (set_prop processed fieldName v))
      else decrypt_fields lb key rest processed)"

definition processDocumentFromStorage :: "libs \<Rightarrow> bytes \<Rightarrow> jsval \<Rightarrow> schema \<Rightarrow> error + jsval" where
  "processDocumentFromStorage lb key document schema =
     (case decrypt_fields lb key schema (object_entries document) of
        Inl e \<Rightarrow> Inl e
      | Inr processed \<Rightarrow> Inr (JObj processed))"

subsection \<open>find and findOne\<close>

fun filterDocuments ::
  "runtime \<Rightarrow> libs \<Rightarrow> bytes \<Rightarrow> jsval list \<Rightarrow> jsval \<Rightarrow> schema \<Rightarrow> error + jsval list"
where
  "filterDocuments rt lb key [] query schema = Inr []"
| "filterDocuments rt lb key (doc # docs) query schema =
     (case processDocumentFromStorage lb key doc schema of
        Inl e \<Rightarrow> Inl e
      | Inr processedDoc \<Rightarrow>
          (case matchesQuery rt processedDoc query of
             Inl e \<Rightarrow> Inl e
           | Inr m \<Rightarrow>
               (case filterDocuments rt lb key docs query schema of
                  Inl e \<Rightarrow> Inl e
                | Inr filtered \<Rightarrow> Inr (if m then doc # filtered else filtered))))"

text \<open>The options of \<open>find\<close>; an option that is not given is undefined.\<close>

record find_options =
  opt_sort :: jsval
  opt_skip :: jsval
  opt_limit :: jsval

definition no_options :: find_options where
  "no_options = \<lparr>opt_sort = JUndefined, opt_skip = JUndefined, opt_limit = JUndefined\<rparr>"

text \<open>\<open>xs.slice(a)\<close> and \<open>xs.slice(0, b)\<close>: the bound is made an integer (NaN is 0), and a
  negative one counts from the end.\<close>

definition relative_index :: "runtime \<Rightarrow> jsval \<Rightarrow> nat \<Rightarrow> nat" where
  "relative_index rt v len =
     (case to_number rt v of
        None \<Rightarrow> 0
      | Some n \<Rightarrow> (if n < 0 then nat (int len + n) else min (nat n) len))"

definition slice_from :: "runtime \<Rightarrow> jsval \<Rightarrow> 'a list \<Rightarrow> 'a list" where
  "slice_from rt a xs = drop (relative_index rt a (length xs)) xs"

definition slice_to :: "runtime \<Rightarrow> jsval \<Rightarrow> 'a list \<Rightarrow> 'a list" where
  "slice_to rt b xs = take (relative_index rt b (length xs)) xs"

fun process_all :: "libs \<Rightarrow> bytes \<Rightarrow> jsval list \<Rightarrow> schema \<Rightarrow> error + jsval list" where
  "process_all lb key [] schema = Inr []"
| "process_all lb key (doc # docs) schema =
     (case processDocumentFromStorage lb key doc schema of
        Inl e \<Rightarrow> Inl e
      | Inr processed \<Rightarrow>
          (case process_all lb key docs schema of
             Inl e \<Rightarrow> Inl e
           | Inr rest \<Rightarrow> Inr (processed # rest)))"

text \<open>The first step of \<open>find\<close>: the documents that the query selects, all of them for a
  query without entries.\<close>

definition select_documents ::
  "runtime \<Rightarrow> libs \<Rightarrow> bytes \<Rightarrow> jsval list \<Rightarrow> jsval \<Rightarrow> schema \<Rightarrow> error + jsval list" where
  "select_documents rt lb key documents query schema =
     (if object_entries query \<noteq> [] then filterDocuments rt lb key documents query schema
      else Inr documents)"

definition find_documents ::
  "runtime \<Rightarrow> libs \<Rightarrow> engine \<Rightarrow> string \<Rightarrow> jsval \<Rightarrow> find_options \<Rightarrow> error + jsval list" where
  "find_documents rt lb db collectionName query0 options =
     (case getCollection db collectionName of
        Inl e \<Rightarrow> Inl e
      | Inr collection \<Rightarrow>
          (let query = (if query0 = JUndefined then JObj [] else query0);
               key = encryptionKey (storage db);
               documents = map snd (c_documents collection)
           in if query = JNull then Inl (TypeError ''Object.keys'')
              else
                (case select_documents rt lb key documents query (c_schema collection) of
                   Inl e \<Rightarrow> Inl e
                 | Inr filtered \<Rightarrow>
                     (let sorted = (if truthy (opt_sort options)
                                    then sortDocuments rt filtered (opt_sort options)
                                    else filtered);
                          skipped = (if truthy (opt_skip options)
                                     then slice_from rt (opt_skip options) sorted else sorted);
                          limited = (if truthy (opt_limit options)
                                     then slice_to rt (opt_limit options) skipped else skipped)
                      in process_all lb key limited (c_schema collection)))))"

text \<open>\<open>findOne\<close>; the result \<open>null\<close> is \<open>JNull\<close>.\<close>

definition findOne :: "runtime \<Rightarrow> libs \<Rightarrow> engine \<Rightarrow> string \<Rightarrow> jsval \<Rightarrow> error + jsval" where
  "findOne rt lb db collectionName query =
     (case find_documents rt lb db collectionName query (no_options\<lparr>opt_limit := JNum 1\<rparr>) of
        Inl e \<Rightarrow> Inl e
      | Inr results \<Rightarrow> Inr (if length results > 0 then results ! 0 else JNull))"

text \<open>The same, in the words of the specification:
  \<open>find_one(query) \<equiv> find(query, {limit:1}).first_or_null\<close>.\<close>

definition first_or_null :: "jsval list \<Rightarrow> jsval" where
  "first_or_null xs = (case xs of [] \<Rightarrow> JNull | x # rest \<Rightarrow> x)"

definition find_one_spec :: "runtime \<Rightarrow> libs \<Rightarrow> engine \<Rightarrow> string \<Rightarrow> jsval \<Rightarrow> error + jsval" where
  "find_one_spec rt lb db collectionName query =
     map_sum id first_or_null
       (find_documents rt lb db collectionName query
          \<lparr>opt_sort = JUndefined, opt_skip = JUndefined, opt_limit = JNum 1\<rparr>)"


subsection \<open>Saving a collection\<close>

definition field_def_js :: "field_def \<Rightarrow> jsval" where
  "field_def_js fd =
     JObj [(''type'', JStr (fd_type fd)),
           (''required'', JBool (fd_required fd)),
           (''encrypted'', JBool (fd_encrypted fd)),
           (''unique'', JBool (fd_unique fd)),
           (''index'', JBool (fd_index fd)),
           (''default'', (case fd_default fd of DefaultValue d \<Rightarrow> d
                          | DefaultFunction src f \<Rightarrow> JStr src)),
           (''validate'', (case fd_validate fd of None \<Rightarrow> JUndefined
                           | Some (src, f) \<Rightarrow> JStr src)),
           (''min'', fd_min fd),
           (''max'', fd_max fd),
           (''minLength'', fd_minLength fd),
           (''maxLength'', fd_maxLength fd),
           (''enum'', (case fd_enum fd of None \<Rightarrow> JUndefined | Some allowed \<Rightarrow> JArr allowed)),
           (''ref'', fd_ref fd)]"

text \<open>\<open>serializeSchema\<close>: the JSON image of the schema, a function replaced by its source
  text.\<close>

definition serializeSchema :: "schema \<Rightarrow> jsval" where
  "serializeSchema schema = json_value (JObj (map (\<lambda>kv. (fst kv, field_def_js (snd kv))) schema))"

text \<open>\<open>Object.fromEntries(collection.documents)\<close>: the key of a document becomes a
  property name.\<close>

definition documents_object :: "runtime \<Rightarrow> (jsval \<times> jsval) list \<Rightarrow> jsval" where
  "documents_object rt docs = fromEntries (map (\<lambda>kv. (to_string rt (fst kv), snd kv)) docs)"

text \<open>An operation of the engine returns the state it leaves behind, also when it
  throws, and what it returns or throws.\<close>

definition saveCollection :: "runtime \<Rightarrow> libs \<Rightarrow> entropy \<Rightarrow> engine \<Rightarrow> string \<Rightarrow> engine \<times> error option" where
  "saveCollection rt lb en db name =
     (case map_of (collections db) name of
        None \<Rightarrow> (db, Some (TypeError ''collection is undefined''))
      | Some collection \<Rightarrow>
          (case setCollection (storage db) name
                  (JObj [(''schema'', serializeSchema (c_schema collection)),
                         (''documents'', documents_object rt (c_documents collection)),
                         (''indexes'', c_indexes collection)]) (now en) of
             Inl e \<Rightarrow> (db, Some e)
           | Inr st1 \<Rightarrow>
               (case saveToFile lb (save_iv en) (now en) st1 of
                  Inl e \<Rightarrow> (db\<lparr>storage := st1\<rparr>, Some e)
                | Inr st2 \<Rightarrow> (db\<lparr>storage := st2\<rparr>, None))))"

subsection \<open>Indexes\<close>

definition index_key :: "runtime \<Rightarrow> jsval \<Rightarrow> string" where
  "index_key rt v =
     (if v = JNull then ''__null__'' else if v = JUndefined then ''__undefined__''
      else to_string rt v)"

text \<open>\<open>Set.prototype.add\<close> and \<open>delete\<close> on the list of the members.\<close>

definition set_add :: "jsval list \<Rightarrow> jsval \<Rightarrow> jsval list" where
  "set_add members x = (if list_ex (\<lambda>y. same_value_zero y x) members then members else members @ [x])"

definition set_delete :: "jsval list \<Rightarrow> jsval \<Rightarrow> jsval list" where
  "set_delete members x = filter (\<lambda>y. \<not> same_value_zero y x) members"

definition addToIndex :: "runtime \<Rightarrow> index \<Rightarrow> jsval \<Rightarrow> jsval \<Rightarrow> error + index" where
  "addToIndex rt ix v docId =
     (let key = index_key rt v;
          data1 = (if \<not> map_has (ix_data ix) key then map_set (ix_data ix) key [] else ix_data ix);
          members = (case map_of data1 key of None \<Rightarrow> [] | Some ids \<Rightarrow> ids)
      in if ix_unique ix \<and> length members > 0
         then Inl (DuplicateUniqueIndex (to_string rt v))
         else Inr (ix\<lparr>ix_data := map_set data1 key (set_add members docId)\<rparr>))"

definition removeFromIndex :: "runtime \<Rightarrow> index \<Rightarrow> jsval \<Rightarrow> jsval \<Rightarrow> index" where
  "removeFromIndex rt ix v docId =
     (let key = index_key rt v
      in case map_of (ix_data ix) key of
           None \<Rightarrow> ix
         | Some ids \<Rightarrow>
             (let ids' = set_delete ids docId
              in if length ids' = 0 then ix\<lparr>ix_data := map_delete (ix_data ix) key\<rparr>
                 else ix\<lparr>ix_data := map_set (ix_data ix) key ids'\<rparr>))"

text \<open>\<open>indexKey.split('.').slice(1).join('.')\<close>.\<close>

definition index_field :: "string \<Rightarrow> string" where
  "index_field indexKey = join_with ''.'' (tl (split_dot indexKey))"

text \<open>\<open>updateIndexesOnInsert\<close>: the loop over the indexes of the engine, which changes
  them one after the other and stops where \<open>addToIndex\<close> throws.\<close>

fun updateIndexesOnInsert ::
  "runtime \<Rightarrow> string \<Rightarrow> jsval \<Rightarrow> (string \<times> index) list \<Rightarrow> (string \<times> index) list \<times> error option"
where
  "updateIndexesOnInsert rt collectionName document [] = ([], None)"
| "updateIndexesOnInsert rt collectionName document ((indexKey, ix) # rest) =
     (if starts_with indexKey (collectionName @ ''.'')
         \<and> (getFieldValue document (index_field indexKey) \<noteq> JUndefined \<or> \<not> ix_sparse ix)
      then (case addToIndex rt ix (getFieldValue document (index_field indexKey))
                   (get_prop document ''_id'') of
              Inl e \<Rightarrow> ((indexKey, ix) # rest, Some e)
            | Inr ix' \<Rightarrow>
                (let r = updateIndexesOnInsert rt collectionName document rest
                 in ((indexKey, ix') # fst r, snd r)))
      else (let r = updateIndexesOnInsert rt collectionName document rest
            in ((indexKey, ix) # fst r, snd r)))"

text \<open>
  \<open>oldValue !== newValue\<close> of \<open>updateIndexesOnUpdate\<close>, between the value of a field in
  the stored document and in the document that replaces it. A field that the update did
  not assign holds one and the same object in both; the model takes two object values
  as identical when they are equal.
\<close>

definition same_stored :: "jsval \<Rightarrow> jsval \<Rightarrow> bool" where
  "same_stored a b = (if is_object a \<or> is_object b then a = b else strict_eq a b)"

fun updateIndexesOnUpdate ::
  "runtime \<Rightarrow> string \<Rightarrow> jsval \<Rightarrow> jsval \<Rightarrow> (string \<times> index) list \<Rightarrow> (string \<times> index) list \<times> error option"
where
  "updateIndexesOnUpdate rt collectionName oldDoc newDoc [] = ([], None)"
| "updateIndexesOnUpdate rt collectionName oldDoc newDoc ((indexKey, ix) # rest) =
     (let oldValue = getFieldValue oldDoc (index_field indexKey);
          newValue = getFieldValue newDoc (index_field indexKey)
      in if starts_with indexKey (collectionName @ ''.'') \<and> \<not> same_stored oldValue newValue
         then (let ix1 = removeFromIndex rt ix oldValue (get_prop oldDoc ''_id'')
               in if newValue \<noteq> JUndefined \<or> \<not> ix_sparse ix
                  then (case addToIndex rt ix1 newValue (get_prop newDoc ''_id'') of
                          Inl e \<Rightarrow> ((indexKey, ix1) # rest, Some e)
                        | Inr ix2 \<Rightarrow>
                            (let r = updateIndexesOnUpdate rt collectionName oldDoc newDoc rest
                             in ((indexKey, ix2) # fst r, snd r)))
                  else (let r = updateIndexesOnUpdate rt collectionName oldDoc newDoc rest
                        in ((indexKey, ix1) # fst r, snd r)))
         else (let r = updateIndexesOnUpdate rt collectionName oldDoc newDoc rest
               in ((indexKey, ix) # fst r, snd r)))"

definition serializeIndex :: "index \<Rightarrow> jsval" where
  "serializeIndex ix =
     JObj [(''field'', JStr (ix_field ix)),
           (''unique'', JBool (ix_unique ix)),
           (''sparse'', JBool (ix_sparse ix)),
           (''data'', fromEntries (map (\<lambda>kv. (fst kv, JArr (snd kv))) (ix_data ix)))]"

subsection \<open>insert\<close>

text \<open>\<open>collection.documents.set(id, doc)\<close> on the collection of that name.\<close>

definition put_document :: "engine \<Rightarrow> string \<Rightarrow> jsval \<Rightarrow> jsval \<Rightarrow> engine" where
  "put_document db name docId doc =
     db\<lparr>collections :=
          map (\<lambda>kv. if fst kv = name
                     then (fst kv, (snd kv)\<lparr>c_documents := map_set (c_documents (snd kv)) docId doc\<rparr>)
                     else kv)
            (collections db)\<rparr>"

text \<open>\<open>checkUniqueConstraints\<close>: for each unique field of the schema that the document
  defines, the first document found with that value must be the document itself.\<close>

fun checkUniqueConstraints ::
  "runtime \<Rightarrow> libs \<Rightarrow> engine \<Rightarrow> string \<Rightarrow> jsval \<Rightarrow> schema \<Rightarrow> error + unit"
where
  "checkUniqueConstraints rt lb db collectionName document [] = Inr ()"
| "checkUniqueConstraints rt lb db collectionName document ((fieldName, fd) # rest) =
     (if fd_unique fd \<and> get_prop document fieldName \<noteq> JUndefined
      then (case findOne rt lb db collectionName (JObj [(fieldName, get_prop document fieldName)]) of
              Inl e \<Rightarrow> Inl e
            | Inr existing \<Rightarrow>
                (if truthy existing
                    \<and> \<not> strict_eq (get_prop existing ''_id'') (get_prop document ''_id'')
                 then Inl (DuplicateUniqueField fieldName)
                 else checkUniqueConstraints rt lb db collectionName document rest))
      else checkUniqueConstraints rt lb db collectionName document rest)"

definition insert_document ::
  "runtime \<Rightarrow> libs \<Rightarrow> entropy \<Rightarrow> engine \<Rightarrow> string \<Rightarrow> jsval \<Rightarrow> engine \<times> (error + jsval)" where
  "insert_document rt lb en db collectionName document =
     (case getCollection db collectionName of
        Inl e \<Rightarrow> (db, Inl e)
      | Inr collection \<Rightarrow>
     (case validateDocument rt (now en) (fresh_id en 0) document (c_schema collection) of
        Inl e \<Rightarrow> (db, Inl e)
      | Inr validatedDoc \<Rightarrow>
     (let key = encryptionKey (storage db);
          processedDoc = processDocumentForStorage lb key (field_iv en 0) validatedDoc
                           (c_schema collection)
      in case checkUniqueConstraints rt lb db collectionName processedDoc (c_schema collection) of
           Inl e \<Rightarrow> (db, Inl e)
         | Inr u \<Rightarrow>
        (let db1 = put_document db collectionName (get_prop processedDoc ''_id'') processedDoc;
             r = updateIndexesOnInsert rt collectionName processedDoc (indexes db1);
             db2 = db1\<lparr>indexes := fst r\<rparr>
         in case snd r of
              Some e \<Rightarrow> (db2, Inl e)
            | None \<Rightarrow>
                (case saveCollection rt lb en db2 collectionName of
                   (db3, Some e) \<Rightarrow> (db3, Inl e)
                 | (db3, None) \<Rightarrow>
                     (db3, processDocumentFromStorage lb key processedDoc
                             (c_schema collection)))))))"


subsection \<open>update\<close>

text \<open>\<open>a + b\<close>: concatenation when an operand is a string after \<open>ToPrimitive\<close> (which
  gives the string of a \<open>Date\<close> here), addition of the numbers otherwise.\<close>

definition to_primitive_default :: "runtime \<Rightarrow> jsval \<Rightarrow> jsval" where
  "to_primitive_default rt v = (if is_object v then JStr (to_string rt v) else v)"

definition js_add :: "runtime \<Rightarrow> jsval \<Rightarrow> jsval \<Rightarrow> jsval" where
  "js_add rt a b =
     (let pa = to_primitive_default rt a; pb = to_primitive_default rt b
      in if (case pa of JStr s \<Rightarrow> True | _ \<Rightarrow> False) \<or> (case pb of JStr s \<Rightarrow> True | _ \<Rightarrow> False)
         then JStr (to_string rt pa @ to_string rt pb)
         else (case (to_number rt pa, to_number rt pb) of
                 (Some x, Some y) \<Rightarrow> JNum (x + y)
               | _ \<Rightarrow> JNaN))"

text \<open>The loops of the five update operators over the entries of their operand. The
  array that \<open>$push\<close> extends is extended in the updated copy.\<close>

fun apply_set :: "(string \<times> jsval) list \<Rightarrow> (string \<times> jsval) list \<Rightarrow> (string \<times> jsval) list" where
  "apply_set [] updated = updated"
| "apply_set ((field, v) # rest) updated = apply_set rest (set_prop updated field v)"

fun apply_unset :: "(string \<times> jsval) list \<Rightarrow> (string \<times> jsval) list \<Rightarrow> (string \<times> jsval) list" where
  "apply_unset [] updated = updated"
| "apply_unset ((field, v) # rest) updated = apply_unset rest (delete_prop updated field)"

fun apply_inc ::
  "runtime \<Rightarrow> (string \<times> jsval) list \<Rightarrow> (string \<times> jsval) list \<Rightarrow> (string \<times> jsval) list" where
  "apply_inc rt [] updated = updated"
| "apply_inc rt ((field, increment) # rest) updated =
     apply_inc rt rest
       (set_prop updated field
          (js_add rt (if truthy (lookup updated field) then lookup updated field else JNum 0)
             increment))"

fun apply_push :: "(string \<times> jsval) list \<Rightarrow> (string \<times> jsval) list \<Rightarrow> (string \<times> jsval) list" where
  "apply_push [] updated = updated"
| "apply_push ((field, v) # rest) updated =
     apply_push rest
       (set_prop updated field
          (case lookup updated field of JArr xs \<Rightarrow> JArr (xs @ [v]) | _ \<Rightarrow> JArr [v]))"

fun apply_pull :: "(string \<times> jsval) list \<Rightarrow> (string \<times> jsval) list \<Rightarrow> (string \<times> jsval) list" where
  "apply_pull [] updated = updated"
| "apply_pull ((field, v) # rest) updated =
     apply_pull rest
       (case lookup updated field of
          JArr xs \<Rightarrow> set_prop updated field (JArr (filter (\<lambda>item. \<not> strict_eq item v) xs))
        | _ \<Rightarrow> updated)"

fun apply_operators ::
  "runtime \<Rightarrow> (string \<times> jsval) list \<Rightarrow> (string \<times> jsval) list \<Rightarrow> error + (string \<times> jsval) list"
where
  "apply_operators rt [] updated = Inr updated"
| "apply_operators rt ((operator, operations) # rest) updated =
     (if operator = ''$set'' then
        apply_operators rt rest (apply_set (object_entries operations) updated)
      else if operator = ''$unset'' \<or> operator = ''$inc'' \<or> operator = ''$push''
              \<or> operator = ''$pull'' then
        (if operations = JUndefined \<or> operations = JNull
         then Inl (TypeError ''Cannot convert undefined or null to object'')
         else apply_operators rt rest
                (if operator = ''$unset'' then apply_unset (object_entries operations) updated
                 else if operator = ''$inc'' then apply_inc rt (object_entries operations) updated
                 else if operator = ''$push'' then apply_push (object_entries operations) updated
                 else apply_pull (object_entries operations) updated))
      else Inl (UnsupportedUpdateOperator operator))"

definition applyUpdate :: "runtime \<Rightarrow> int \<Rightarrow> jsval \<Rightarrow> jsval \<Rightarrow> error + jsval" where
  "applyUpdate rt date_now document update =
     (if update = JUndefined \<or> update = JNull
      then Inl (TypeError ''Cannot convert undefined or null to object'')
      else (case apply_operators rt (object_entries update) (object_entries document) of
              Inl e \<Rightarrow> Inl e
            | Inr updated \<Rightarrow> Inr (JObj (set_prop updated ''updatedAt'' (JDate date_now)))))"

text \<open>The loop of \<open>update\<close> over the documents that matched the filter.\<close>

fun update_documents ::
  "runtime \<Rightarrow> libs \<Rightarrow> entropy \<Rightarrow> string \<Rightarrow> schema \<Rightarrow> jsval \<Rightarrow> bool \<Rightarrow> jsval list \<Rightarrow> nat \<Rightarrow> engine
     \<Rightarrow> engine \<times> (error + nat)"
where
  "update_documents rt lb en collectionName schema update updateMany [] modifiedCount db =
     (db, Inr modifiedCount)"
| "update_documents rt lb en collectionName schema update updateMany (doc # rest) modifiedCount db =
     (if \<not> updateMany \<and> modifiedCount > 0 then (db, Inr modifiedCount)
      else
     (case processDocumentFromStorage lb (encryptionKey (storage db)) doc schema of
        Inl e \<Rightarrow> (db, Inl e)
      | Inr originalDoc \<Rightarrow>
     (case applyUpdate rt (now en) originalDoc update of
        Inl e \<Rightarrow> (db, Inl e)
      | Inr updatedDoc \<Rightarrow>
     (case validateDocument rt (now en) (fresh_id en modifiedCount) updatedDoc schema of
        Inl e \<Rightarrow> (db, Inl e)
      | Inr validatedDoc \<Rightarrow>
     (let processedDoc = processDocumentForStorage lb (encryptionKey (storage db))
                           (field_iv en modifiedCount) validatedDoc schema;
          db1 = put_document db collectionName (get_prop doc ''_id'') processedDoc;
          r = updateIndexesOnUpdate rt collectionName doc processedDoc (indexes db1);
          db2 = db1\<lparr>indexes := fst r\<rparr>
      in case snd r of
           Some e \<Rightarrow> (db2, Inl e)
         | None \<Rightarrow>
             update_documents rt lb en collectionName schema update updateMany rest
               (Suc modifiedCount) db2)))))"

text \<open>The result of \<open>update\<close> is the pair of \<open>matchedCount\<close> and \<open>modifiedCount\<close>; \<open>multi\<close> is
  the option of that name, undefined when it is not given.\<close>

definition update ::
  "runtime \<Rightarrow> libs \<Rightarrow> entropy \<Rightarrow> engine \<Rightarrow> string \<Rightarrow> jsval \<Rightarrow> jsval \<Rightarrow> jsval
     \<Rightarrow> engine \<times> (error + nat \<times> nat)" where
  "update rt lb en db collectionName filter_query update_spec multi =
     (case getCollection db collectionName of
        Inl e \<Rightarrow> (db, Inl e)
      | Inr collection \<Rightarrow>
     (case filterDocuments rt lb (encryptionKey (storage db)) (map snd (c_documents collection))
             filter_query (c_schema collection) of
        Inl e \<Rightarrow> (db, Inl e)
      | Inr documentsToUpdate \<Rightarrow>
          (if length documentsToUpdate = 0 then (db, Inr (0, 0))
           else
             (case update_documents rt lb en collectionName (c_schema collection) update_spec
                     (\<not> strict_eq multi (JBool False)) documentsToUpdate 0 db of
                (db1, Inl e) \<Rightarrow> (db1, Inl e)
              | (db1, Inr modifiedCount) \<Rightarrow>
                  (case saveCollection rt lb en db1 collectionName of
                     (db2, Some e) \<Rightarrow> (db2, Inl e)
                   | (db2, None) \<Rightarrow> (db2, Inr (length documentsToUpdate, modifiedCount)))))))"

subsection \<open>Indexes and collections created and dropped\<close>

fun build_index :: "runtime \<Rightarrow> string \<Rightarrow> jsval list \<Rightarrow> index \<Rightarrow> error + index" where
  "build_index rt field [] ix = Inr ix"
| "build_index rt field (doc # docs) ix =
     (if getFieldValue doc field \<noteq> JUndefined \<or> \<not> ix_sparse ix
      then (case addToIndex rt ix (getFieldValue doc field) (get_prop doc ''_id'') of
              Inl e \<Rightarrow> Inl e
            | Inr ix' \<Rightarrow> build_index rt field docs ix')
      else build_index rt field docs ix)"

text \<open>\<open>createIndex\<close>, with the options \<open>unique\<close> and \<open>sparse\<close>.\<close>

definition createIndex ::
  "runtime \<Rightarrow> libs \<Rightarrow> entropy \<Rightarrow> engine \<Rightarrow> string \<Rightarrow> string \<Rightarrow> bool \<Rightarrow> bool \<Rightarrow> engine \<times> error option" where
  "createIndex rt lb en db collectionName field unique_opt sparse_opt =
     (case getCollection db collectionName of
        Inl e \<Rightarrow> (db, Some e)
      | Inr collection \<Rightarrow>
          (let indexKey = collectionName @ ''.'' @ field
           in if map_has (indexes db) indexKey then (db, Some (IndexExists indexKey))
              else
                (case build_index rt field (map snd (c_documents collection))
                        \<lparr>ix_field = field, ix_unique = unique_opt, ix_sparse = sparse_opt,
                         ix_data = []\<rparr> of
                   Inl e \<Rightarrow> (db, Some e)
                 | Inr ix \<Rightarrow>
                     (let db1 = db\<lparr>indexes := map_set (indexes db) indexKey ix\<rparr>
                      in case setIndex (storage db1) indexKey (serializeIndex ix) (now en) of
                           Inl e \<Rightarrow> (db1, Some e)
                         | Inr st1 \<Rightarrow>
                             (case saveToFile lb (save_iv en) (now en) st1 of
                                Inl e \<Rightarrow> (db1\<lparr>storage := st1\<rparr>, Some e)
                              | Inr st2 \<Rightarrow> (db1\<lparr>storage := st2\<rparr>, None))))))"

definition dropIndex ::
  "libs \<Rightarrow> entropy \<Rightarrow> engine \<Rightarrow> string \<Rightarrow> string \<Rightarrow> engine \<times> error option" where
  "dropIndex lb en db collectionName field =
     (let indexKey = collectionName @ ''.'' @ field
      in if \<not> map_has (indexes db) indexKey
         then (db, Some (CollectionError (''Index on '' @ indexKey @ '' does not exist'')))
         else
           (let db1 = db\<lparr>indexes := map_delete (indexes db) indexKey\<rparr>
            in case deleteIndex (storage db1) indexKey (now en) of
                 Inl e \<Rightarrow> (db1, Some e)
               | Inr st1 \<Rightarrow>
                   (case saveToFile lb (save_iv en) (now en) st1 of
                      Inl e \<Rightarrow> (db1\<lparr>storage := st1\<rparr>, Some e)
                    | Inr st2 \<Rightarrow> (db1\<lparr>storage := st2\<rparr>, None))))"

definition dropCollection ::
  "libs \<Rightarrow> entropy \<Rightarrow> engine \<Rightarrow> string \<Rightarrow> engine \<times> error option" where
  "dropCollection lb en db name =
     (if \<not> map_has (collections db) name
      then (db, Some (CollectionError (''Collection '' @ name @ '' does not exist'')))
      else
        (let db1 = db\<lparr>collections := map_delete (collections db) name\<rparr>
         in case deleteCollection (storage db1) name (now en) of
              Inl e \<Rightarrow> (db1, Some e)
            | Inr st1 \<Rightarrow>
                (case saveToFile lb (save_iv en) (now en) st1 of
                   Inl e \<Rightarrow> (db1\<lparr>storage := st1\<rparr>, Some e)
                 | Inr st2 \<Rightarrow> (db1\<lparr>storage := st2\<rparr>, None))))"


section \<open>A runtime and libraries to run the model\<close>

text \<open>
  The theorems about the program hold for every runtime and all libraries, under the
  hypotheses they state. To run the model on a concrete input, the parameters are
  filled with small executable functions of the same interface.
\<close>

subsection \<open>The runtime\<close>

definition backslash :: char where
  "backslash = CHR 0x5C"

definition double_quote :: char where
  "double_quote = CHR 0x22"

definition regexp_special :: string where
  "regexp_special = backslash # ''^$.|?*+()[]{}''"

fun contains :: "string \<Rightarrow> string \<Rightarrow> bool" where
  "contains [] p = (p = [])"
| "contains (c # cs) p = (starts_with (c # cs) p \<or> contains cs p)"

text \<open>The regular expressions without special characters: such a pattern matches the
  subjects that contain it. This engine refuses the other patterns.\<close>

definition literal_regexp :: "string \<Rightarrow> (string \<Rightarrow> bool) option" where
  "literal_regexp p =
     (if list_ex (\<lambda>c. List.member regexp_special c) p then None
      else Some (\<lambda>subject. contains subject p))"

definition is_digit :: "char \<Rightarrow> bool" where
  "is_digit c = List.member ''0123456789'' c"

definition is_space :: "char \<Rightarrow> bool" where
  "is_space c = List.member [CHR 0x09, CHR 0x0A, CHR 0x0B, CHR 0x0C, CHR 0x0D, CHR '' ''] c"

text \<open>The strings that are decimal integers, with a sign and surrounding white space
  or without; the empty string is 0, any other string is NaN.\<close>

definition decimal_number :: "string \<Rightarrow> int option" where
  "decimal_number s =
     (let t = rev (dropWhile is_space (rev (dropWhile is_space s)))
      in case t of
           [] \<Rightarrow> Some 0
         | c # cs \<Rightarrow>
             (if c = CHR ''-'' \<and> cs \<noteq> [] then map_option uminus (digits_to_int cs 0)
              else if c = CHR ''+'' \<and> cs \<noteq> [] then digits_to_int cs 0
              else digits_to_int t 0))"

definition days_from_civil :: "int \<Rightarrow> int \<Rightarrow> int \<Rightarrow> int" where
  "days_from_civil y0 m d =
     (let y = (if m \<le> 2 then y0 - 1 else y0);
          era = y div 400;
          yoe = y mod 400;
          doy = (153 * (if m > 2 then m - 3 else m + 9) + 2) div 5 + d - 1;
          doe = yoe * 365 + yoe div 4 - yoe div 100 + doy
      in era * 146097 + doe - 719468)"

text \<open>The dates in the format of \<open>toISOString\<close> with a four-digit year.\<close>

definition iso_parse :: "string \<Rightarrow> int option" where
  "iso_parse s =
     (if length s = 24 \<and> s ! 4 = CHR ''-'' \<and> s ! 7 = CHR ''-'' \<and> s ! 10 = CHR ''T''
         \<and> s ! 13 = CHR '':'' \<and> s ! 16 = CHR '':'' \<and> s ! 19 = CHR ''.'' \<and> s ! 23 = CHR ''Z''
      then (case (digits_to_int (take 4 s) 0, digits_to_int (take 2 (drop 5 s)) 0,
                  digits_to_int (take 2 (drop 8 s)) 0, digits_to_int (take 2 (drop 11 s)) 0,
                  digits_to_int (take 2 (drop 14 s)) 0, digits_to_int (take 2 (drop 17 s)) 0,
                  digits_to_int (take 3 (drop 20 s)) 0) of
              (Some y, Some m, Some d, Some h, Some mi, Some sec, Some ms) \<Rightarrow>
                Some (days_from_civil y m d * 86400000
                      + (h * 3600000 + mi * 60000 + sec * 1000 + ms))
            | _ \<Rightarrow> None)
      else None)"

text \<open>\<open>Date.prototype.toString\<close> on a host in the UTC time zone.\<close>

definition utc_string :: "int \<Rightarrow> string" where
  "utc_string t =
     (let days = t div 86400000;
          ms = t mod 86400000;
          ymd = civil_from_days days
      in [''Sun'', ''Mon'', ''Tue'', ''Wed'', ''Thu'', ''Fri'', ''Sat''] ! nat ((days + 4) mod 7)
         @ '' ''
         @ [''Jan'', ''Feb'', ''Mar'', ''Apr'', ''May'', ''Jun'', ''Jul'', ''Aug'', ''Sep'', ''Oct'',
            ''Nov'', ''Dec''] ! (fst (snd ymd) - 1)
         @ '' '' @ pad 2 (snd (snd ymd)) @ '' '' @ pad 4 (nat (fst ymd)) @ '' ''
         @ pad 2 (nat (ms div 3600000)) @ '':'' @ pad 2 (nat (ms div 60000 mod 60)) @ '':''
         @ pad 2 (nat (ms div 1000 mod 60)) @ '' GMT+0000 (Coordinated Universal Time)'')"

definition sample_runtime :: runtime where
  "sample_runtime =
     \<lparr>regexp_compile = literal_regexp, string_to_number = decimal_number,
      date_parse = iso_parse, date_to_string = utc_string, array_sort = stable_sort\<rparr>"

subsection \<open>The libraries\<close>

text \<open>JSON text: the printer writes the JSON image of a value without white space, the
  parser reads such a text.\<close>

definition hex_char :: "nat \<Rightarrow> char" where
  "hex_char n = (''0123456789abcdef'') ! (n mod 16)"

text \<open>A control character: a code unit below 32.\<close>

definition is_control :: "char \<Rightarrow> bool" where
  "is_control c = (case c of Char b0 b1 b2 b3 b4 b5 b6 b7 \<Rightarrow> \<not> b5 \<and> \<not> b6 \<and> \<not> b7)"

definition escape_char :: "char \<Rightarrow> string" where
  "escape_char c =
     (if c = double_quote \<or> c = backslash then [backslash, c]
      else if c = CHR 0x08 then [backslash, CHR ''b'']
      else if c = CHR 0x09 then [backslash, CHR ''t'']
      else if c = CHR 0x0A then [backslash, CHR ''n'']
      else if c = CHR 0x0C then [backslash, CHR ''f'']
      else if c = CHR 0x0D then [backslash, CHR ''r'']
      else if is_control c then
        [backslash, CHR ''u'', CHR ''0'', CHR ''0'', hex_char (of_char c div 16), hex_char (of_char c)]
      else [c])"

definition quote :: "string \<Rightarrow> string" where
  "quote s = double_quote # concat (map escape_char s) @ [double_quote]"

fun json_text :: "jsval \<Rightarrow> string"
  and json_text_elements :: "jsval list \<Rightarrow> string"
  and json_text_props :: "(string \<times> jsval) list \<Rightarrow> string"
where
  "json_text JUndefined = ''null''"
| "json_text JNull = ''null''"
| "json_text (JBool b) = (if b then ''true'' else ''false'')"
| "json_text (JNum n) = int_to_string n"
| "json_text JNaN = ''null''"
| "json_text (JStr s) = quote s"
| "json_text (JDate t) = quote (toISOString t)"
| "json_text (JArr xs) = ''['' @ json_text_elements xs @ '']''"
| "json_text (JObj kvs) = ''{'' @ json_text_props kvs @ ''}''"
| "json_text_elements [] = []"
| "json_text_elements (x # xs) =
     json_text x @ (if xs = [] then [] else '','' @ json_text_elements xs)"
| "json_text_props [] = []"
| "json_text_props ((k, v) # kvs) =
     quote k @ '':'' @ json_text v @ (if kvs = [] then [] else '','' @ json_text_props kvs)"

definition hex_value :: "char \<Rightarrow> nat option" where
  "hex_value c = position c ''0123456789abcdef'' 0"

definition unescape_char :: "char \<Rightarrow> char option" where
  "unescape_char c =
     (if c = CHR ''b'' then Some (CHR 0x08)
      else if c = CHR ''t'' then Some (CHR 0x09)
      else if c = CHR ''n'' then Some (CHR 0x0A)
      else if c = CHR ''f'' then Some (CHR 0x0C)
      else if c = CHR ''r'' then Some (CHR 0x0D)
      else if c = CHR ''/'' \<or> c = backslash \<or> c = double_quote then Some c
      else None)"

text \<open>The body of a string literal after its opening quote, up to the closing one. The
  first argument bounds the recursion.\<close>

fun parse_string_body :: "nat \<Rightarrow> string \<Rightarrow> string \<Rightarrow> (string \<times> string) option" where
  "parse_string_body 0 cs acc = None"
| "parse_string_body (Suc n) [] acc = None"
| "parse_string_body (Suc n) (c # cs) acc =
     (if c = double_quote then Some (rev acc, cs)
      else if c = backslash then
        (case cs of
           [] \<Rightarrow> None
         | e # cs' \<Rightarrow>
             (if e = CHR ''u'' then
                (case map hex_value (take 4 cs') of
                   [Some a, Some b, Some c', Some d] \<Rightarrow>
                     (if a = 0 \<and> b = 0
                      then parse_string_body n (drop 4 cs') (char_of (16 * c' + d) # acc)
                      else None)
                 | _ \<Rightarrow> None)
              else (case unescape_char e of
                      None \<Rightarrow> None
                    | Some x \<Rightarrow> parse_string_body n cs' (x # acc))))
      else parse_string_body n cs (c # acc))"

definition parse_number :: "string \<Rightarrow> (jsval \<times> string) option" where
  "parse_number cs =
     (let negative = starts_with cs ''-'';
          body = (if negative then tl cs else cs);
          digits = takeWhile is_digit body
      in if digits = [] then None
         else (case digits_to_int digits 0 of
                 None \<Rightarrow> None
               | Some n \<Rightarrow>
                   Some (JNum (if negative then - n else n), dropWhile is_digit body)))"

text \<open>The parser, by recursive descent; the first argument bounds the recursion and
  is taken larger than twice the length of the text.\<close>

fun parse_value :: "nat \<Rightarrow> string \<Rightarrow> (jsval \<times> string) option"
  and parse_elements :: "nat \<Rightarrow> string \<Rightarrow> (jsval list \<times> string) option"
  and parse_members :: "nat \<Rightarrow> string \<Rightarrow> ((string \<times> jsval) list \<times> string) option"
where
  "parse_value 0 cs = None"
| "parse_value (Suc n) cs =
     (if starts_with cs ''null'' then Some (JNull, drop 4 cs)
      else if starts_with cs ''true'' then Some (JBool True, drop 4 cs)
      else if starts_with cs ''false'' then Some (JBool False, drop 5 cs)
      else if starts_with cs [double_quote] then
        (case parse_string_body n (tl cs) [] of
           None \<Rightarrow> None
         | Some (s, r) \<Rightarrow> Some (JStr s, r))
      else if starts_with cs ''[]'' then Some (JArr [], drop 2 cs)
      else if starts_with cs ''['' then
        (case parse_elements n (tl cs) of None \<Rightarrow> None | Some (xs, r) \<Rightarrow> Some (JArr xs, r))
      else if starts_with cs ''{}'' then Some (JObj [], drop 2 cs)
      else if starts_with cs ''{'' then
        (case parse_members n (tl cs) of None \<Rightarrow> None | Some (kvs, r) \<Rightarrow> Some (JObj kvs, r))
      else parse_number cs)"
| "parse_elements 0 cs = None"
| "parse_elements (Suc n) cs =
     (case parse_value n cs of
        None \<Rightarrow> None
      | Some (v, r) \<Rightarrow>
          (if starts_with r '','' then
             (case parse_elements n (tl r) of
                None \<Rightarrow> None
              | Some (vs, r') \<Rightarrow> Some (v # vs, r'))
           else if starts_with r '']'' then Some ([v], tl r)
           else None))"
| "parse_members 0 cs = None"
| "parse_members (Suc n) cs =
     (if \<not> starts_with cs [double_quote] then None
      else
        (case parse_string_body n (tl cs) [] of
           None \<Rightarrow> None
         | Some (k, r0) \<Rightarrow>
             (if \<not> starts_with r0 '':'' then None
              else
                (case parse_value n (tl r0) of
                   None \<Rightarrow> None
                 | Some (v, r) \<Rightarrow>
                     (if starts_with r '','' then
                        (case parse_members n (tl r) of
                           None \<Rightarrow> None
                         | Some (kvs, r') \<Rightarrow> Some ((k, v) # kvs, r'))
                      else if starts_with r ''}'' then Some ([(k, v)], tl r)
                      else None)))))"

definition text_write :: "jsval \<Rightarrow> bytes" where
  "text_write v = string_bytes (json_text (json_value v))"

definition text_read :: "bytes \<Rightarrow> jsval option" where
  "text_read bs =
     (case parse_value (2 * length bs + 2) (bytes_string bs) of
        Some (v, []) \<Rightarrow> Some v
      | _ \<Rightarrow> None)"

text \<open>Base64 with padding; the decoder skips the characters outside the alphabet.\<close>

definition b64_alphabet :: string where
  "b64_alphabet = ''ABCDEFGHIJKLMNOPQRSTUVWXYZabcdefghijklmnopqrstuvwxyz0123456789+/''"

fun b64_groups :: "nat list \<Rightarrow> string" where
  "b64_groups [] = []"
| "b64_groups [a] = [b64_alphabet ! (a div 4), b64_alphabet ! (a mod 4 * 16), CHR ''='', CHR ''='']"
| "b64_groups [a, b] =
     [b64_alphabet ! (a div 4), b64_alphabet ! (a mod 4 * 16 + b div 16),
      b64_alphabet ! (b mod 16 * 4), CHR ''='']"
| "b64_groups (a # b # c # rest) =
     [b64_alphabet ! (a div 4), b64_alphabet ! (a mod 4 * 16 + b div 16),
      b64_alphabet ! (b mod 16 * 4 + c div 64), b64_alphabet ! (c mod 64)] @ b64_groups rest"

definition b64_encode :: "bytes \<Rightarrow> string" where
  "b64_encode bs = b64_groups (map unat bs)"

fun b64_bytes :: "nat list \<Rightarrow> nat list" where
  "b64_bytes (p # q # r # s # rest) =
     [p * 4 + q div 16, q mod 16 * 16 + r div 4, r mod 4 * 64 + s] @ b64_bytes rest"
| "b64_bytes [p, q, r] = [p * 4 + q div 16, q mod 16 * 16 + r div 4]"
| "b64_bytes [p, q] = [p * 4 + q div 16]"
| "b64_bytes ps = []"

definition b64_decode :: "string \<Rightarrow> bytes" where
  "b64_decode s = map of_nat (b64_bytes (List.map_filter (\<lambda>c. position c b64_alphabet 0) s))"

text \<open>In place of gzip, a frame that stores the data after the two magic bytes; in place
  of AES, the addition of a key stream made of key and initialisation vector, for a key
  of 32 bytes and a vector of 16; in place of SHA-256, a polynomial checksum printed in
  64 characters; in place of PBKDF2, 32 bytes drawn from password and salt.\<close>

definition store :: "bytes \<Rightarrow> bytes" where
  "store bs = [31, 139] @ bs"

definition unstore :: "bytes \<Rightarrow> bytes option" where
  "unstore bs = (if take 2 bs = [31, 139] then Some (drop 2 bs) else None)"

fun stream_add :: "bytes \<Rightarrow> bytes \<Rightarrow> nat \<Rightarrow> bytes \<Rightarrow> bytes" where
  "stream_add key iv i [] = []"
| "stream_add key iv i (b # bs) =
     (b + key ! (i mod 32) + iv ! (i mod 16)) # stream_add key iv (Suc i) bs"

fun stream_sub :: "bytes \<Rightarrow> bytes \<Rightarrow> nat \<Rightarrow> bytes \<Rightarrow> bytes" where
  "stream_sub key iv i [] = []"
| "stream_sub key iv i (b # bs) =
     (b - key ! (i mod 32) - iv ! (i mod 16)) # stream_sub key iv (Suc i) bs"

definition stream_decrypt :: "bytes \<Rightarrow> bytes \<Rightarrow> bytes \<Rightarrow> bytes option" where
  "stream_decrypt key iv bs =
     (if length key = 32 \<and> length iv = 16 then Some (stream_sub key iv 0 bs) else None)"

definition poly_checksum :: "bytes \<Rightarrow> string" where
  "poly_checksum bs =
     take 64 (digits_of (foldl (\<lambda>acc b. (acc * 31 + uint b + 1) mod 65521) 7 bs)
              @ replicate 64 (CHR ''0''))"

definition derive :: "string \<Rightarrow> bytes \<Rightarrow> bytes" where
  "derive password salt_bytes =
     (let material = string_bytes password @ salt_bytes @ [1]
      in map (\<lambda>i. material ! (i mod length material) + of_nat i) [0..<32])"

definition sample_libs :: libs where
  "sample_libs =
     \<lparr>json_write = text_write, json_read = text_read,
      base64_encode = b64_encode, base64_decode = b64_decode,
      gzip = store, gunzip = unstore,
      aes_encrypt = (\<lambda>key iv bs. stream_add key iv 0 bs), aes_decrypt = stream_decrypt,
      sha256_hex = poly_checksum, pbkdf2 = derive\<rparr>"

section \<open>Notions of the claims and sample states\<close>

text \<open>The numeric value of a number, a boolean, null or a date: what the relational
  operators compare when neither operand is a string or undefined.\<close>

fun number_of :: "jsval \<Rightarrow> int option" where
  "number_of JNull = Some 0"
| "number_of (JBool b) = Some (if b then 1 else 0)"
| "number_of (JNum n) = Some n"
| "number_of (JDate t) = Some t"
| "number_of v = None"

text \<open>The same with NaN, a number as well: \<open>Some None\<close> is NaN.\<close>

definition number_or_nan :: "jsval \<Rightarrow> int option option" where
  "number_or_nan v = (if v = JNaN then Some None else map_option Some (number_of v))"

fun is_string :: "jsval \<Rightarrow> bool" where
  "is_string (JStr s) = True"
| "is_string v = False"

text \<open>
  The ordered operators, and what it is for one of them to hold between a field value and
  an operand that are both strings (in code-unit order) or are each a number, a boolean,
  null or a date (by their numeric values). NaN is in no relation with any number, and the
  matcher then takes the operator to hold.
\<close>

definition ordered_operator :: "string \<Rightarrow> bool" where
  "ordered_operator op = List.member [''$gt'', ''$gte'', ''$lt'', ''$lte''] op"

definition comparable :: "jsval \<Rightarrow> jsval \<Rightarrow> bool" where
  "comparable v w =
     ((is_string v \<and> is_string w) \<or> (number_or_nan v \<noteq> None \<and> number_or_nan w \<noteq> None))"

definition in_relation :: "string \<Rightarrow> bool \<Rightarrow> bool \<Rightarrow> bool" where
  "in_relation op lt gt =
     (if op = ''$gt'' then gt else if op = ''$gte'' then \<not> lt
      else if op = ''$lt'' then lt else \<not> gt)"

definition ordered_holds :: "string \<Rightarrow> jsval \<Rightarrow> jsval \<Rightarrow> bool" where
  "ordered_holds op v w =
     (case (v, w) of
        (JStr s, JStr t) \<Rightarrow> in_relation op (code_unit_less s t) (code_unit_less t s)
      | _ \<Rightarrow>
          (case (number_or_nan v, number_or_nan w) of
             (Some (Some x), Some (Some y)) \<Rightarrow> in_relation op (x < y) (y < x)
           | _ \<Rightarrow> True))"

text \<open>
  The ordered operators that a query applies to a document: for each entry of the query
  whose value is an operator object, and each ordered operator of that object, the
  operator, the value of the field in the document and the operand. A query is ordered
  when all its entries are operator objects made of ordered operators.
\<close>

definition ordered_tests :: "jsval \<Rightarrow> jsval \<Rightarrow> (string \<times> jsval \<times> jsval) list" where
  "ordered_tests d q =
     concat (map (\<lambda>entry.
                    if is_object (snd entry)
                    then map (\<lambda>t. (fst t, getFieldValue d (fst entry), snd t))
                           (filter (\<lambda>t. ordered_operator (fst t)) (object_entries (snd entry)))
                    else [])
               (object_entries q))"

definition ordered_query :: "jsval \<Rightarrow> bool" where
  "ordered_query q =
     (q \<noteq> JUndefined \<and> q \<noteq> JNull
      \<and> list_all (\<lambda>entry. is_object (snd entry)
                     \<and> list_all (\<lambda>t. ordered_operator (fst t)) (object_entries (snd entry)))
            (object_entries q))"

text \<open>
  The lexicographic comparator of a sort specification orders a list of documents when,
  for each sort key, the values of the key in the documents are all strings, or are
  each a number other than NaN, a boolean, null or a date, or are all undefined.
\<close>

definition comparable_values :: "jsval list \<Rightarrow> bool" where
  "comparable_values vs =
     (list_all is_string vs \<or> list_all (\<lambda>v. number_of v \<noteq> None) vs
      \<or> list_all (\<lambda>v. v = JUndefined) vs)"

definition sortable :: "(string \<times> jsval) list \<Rightarrow> jsval list \<Rightarrow> bool" where
  "sortable keys docs =
     list_all (\<lambda>key. comparable_values (map (\<lambda>d. getFieldValue d (fst key)) docs)) keys"

text \<open>
  The comparator in the words of the specification: ``sort by each (path, direction)
  pair in order; direction in {+1, -1}; undefined sorts before defined; tie-break by
  next key''. The values of a key are ordered by \<open>value_compare\<close>: undefined first, then
  numbers (and booleans, null and dates, by their numeric value) by value, and strings in
  code-unit order.
\<close>

definition value_compare :: "jsval \<Rightarrow> jsval \<Rightarrow> int" where
  "value_compare a b =
     (if a = JUndefined \<or> b = JUndefined
      then (if a = b then 0 else if a = JUndefined then - 1 else 1)
      else (case (a, b) of
              (JStr s, JStr t) \<Rightarrow>
                (if code_unit_less s t then - 1 else if code_unit_less t s then 1 else 0)
            | _ \<Rightarrow>
                (case (number_of a, number_of b) of
                   (Some x, Some y) \<Rightarrow> (if x < y then - 1 else if y < x then 1 else 0)
                 | _ \<Rightarrow> 0)))"

fun lexicographic :: "(string \<times> jsval) list \<Rightarrow> jsval \<Rightarrow> jsval \<Rightarrow> int" where
  "lexicographic [] a b = 0"
| "lexicographic ((path, direction) # rest) a b =
     (let c = value_compare (getFieldValue a path) (getFieldValue b path);
          c' = (if direction = JNum (- 1) then - c else c)
      in if c' \<noteq> 0 then c' else lexicographic rest a b)"

text \<open>A sequence is monotone non-decreasing under the comparator of a sort
  specification.\<close>

definition monotone_under :: "(string \<times> jsval) list \<Rightarrow> jsval list \<Rightarrow> bool" where
  "monotone_under keys docs = sorted_wrt (\<lambda>a b. lexicographic keys a b \<le> 0) docs"

fun is_plain_object :: "jsval \<Rightarrow> bool" where
  "is_plain_object (JObj kvs) = True"
| "is_plain_object v = False"

text \<open>The stored documents that \<open>find\<close> sorts: those of the collection that the query
  selects.\<close>

definition selected :: "runtime \<Rightarrow> libs \<Rightarrow> engine \<Rightarrow> string \<Rightarrow> jsval \<Rightarrow> jsval list" where
  "selected rt lb db c query =
     (case getCollection db c of
        Inl e \<Rightarrow> []
      | Inr col \<Rightarrow>
          (case select_documents rt lb (encryptionKey (storage db)) (map snd (c_documents col))
                  (if query = JUndefined then JObj [] else query) (c_schema col) of
             Inl e \<Rightarrow> []
           | Inr documents \<Rightarrow> documents))"

text \<open>No sort key addresses an encrypted field of the schema: the first part of its path
  is not the name of one.\<close>

definition sorts_plaintext :: "schema \<Rightarrow> (string \<times> jsval) list \<Rightarrow> bool" where
  "sorts_plaintext schema keys =
     list_all (\<lambda>key. \<not> list_ex (\<lambda>field. fst field = hd (split_dot (fst key))
                                           \<and> fd_encrypted (snd field)) schema) keys"

text \<open>
  The enumeration of the properties of an object, and of what \<open>Object.entries\<close> returns of
  it: no name comes before a name that is enumerated before it, so that the names that
  are array indices come first, in ascending order; the other names are in the order of
  their creation.
\<close>

definition enumeration_ordered :: "(string \<times> 'a) list \<Rightarrow> bool" where
  "enumeration_ordered kvs = sorted_wrt (\<lambda>a b. \<not> enumerated_before (fst b) (fst a)) kvs"

definition plain_names :: "(string \<times> 'a) list \<Rightarrow> (string \<times> 'a) list" where
  "plain_names kvs = filter (\<lambda>kv. array_index (fst kv) = None) kvs"

text \<open>The container of the specification: magic, version, salt length and salt, digest
  length and digest, payload length, initialisation vector and ciphertext.\<close>

definition container :: "bytes \<Rightarrow> string \<Rightarrow> bytes \<Rightarrow> bytes \<Rightarrow> bytes" where
  "container salt_bytes checksum iv encrypted =
     magic @ le32 1 @ le32 (length salt_bytes) @ salt_bytes @ le32 64 @ string_bytes checksum
     @ le32 (16 + length encrypted) @ iv @ encrypted"

text \<open>
  The libraries invert one another on the data of one save: the checksum has 64
  characters, decryption under the key and vector of the save returns the compressed
  text, decompression returns the text, and the JSON parser returns the JSON image of
  the serialized value.
\<close>

definition libs_invert_save :: "libs \<Rightarrow> bytes \<Rightarrow> storage \<Rightarrow> bool" where
  "libs_invert_save lb iv st =
     (case serializeData st of
        Inl e \<Rightarrow> False
      | Inr img \<Rightarrow>
          length (sha256_hex lb (aes_encrypt lb (encryptionKey st) iv (gzip lb (json_write lb img)))) = 64
          \<and> aes_decrypt lb (encryptionKey st) iv
                (aes_encrypt lb (encryptionKey st) iv (gzip lb (json_write lb img)))
              = Some (gzip lb (json_write lb img))
          \<and> gunzip lb (gzip lb (json_write lb img)) = Some (json_write lb img)
          \<and> json_read lb (json_write lb img) = Some (json_value img))"





text \<open>The field definition that \<open>validateFieldDefinition\<close> makes of \<open>{type: t}\<close>.\<close>

definition plain_field :: "string \<Rightarrow> field_def" where
  "plain_field t =
     \<lparr>fd_type = t, fd_required = False, fd_encrypted = False, fd_unique = False,
      fd_index = False, fd_default = DefaultValue JUndefined, fd_validate = None,
      fd_min = JUndefined, fd_max = JUndefined, fd_minLength = JUndefined,
      fd_maxLength = JUndefined, fd_enum = None, fd_ref = JUndefined\<rparr>"

definition sample_salt :: bytes where
  "sample_salt = replicate 32 5"

definition empty_storage :: storage where
  "empty_storage =
     \<lparr>s_collections = [], s_indexes = [], operationLog = JArr [],
      header_created = Some 0, header_modified = Some 0,
      salt = sample_salt, encryptionKey = derive ''pw-one'' sample_salt, disk = None\<rparr>"

definition sample_entropy :: entropy where
  "sample_entropy =
     \<lparr>now = 1700000000000, fresh_id = (\<lambda>n. ''lozv3k00_'' @ nat_to_string n),
      field_iv = (\<lambda>n f. replicate 16 (of_nat (n + length f))), save_iv = replicate 16 9\<rparr>"

definition user_doc :: "string \<Rightarrow> string \<Rightarrow> jsval" where
  "user_doc docId email =
     JObj [(''email'', JStr email), (''_id'', JStr docId),
           (''createdAt'', JDate 1600000000000), (''updatedAt'', JDate 1600000000000)]"

text \<open>
  The engine with the collection \<open>users\<close> holding two users, over any storage object:
  the definition of the field \<open>email\<close> and the indexes are parameters.
\<close>

definition users_engine :: "field_def \<Rightarrow> (string \<times> index) list \<Rightarrow> storage \<Rightarrow> engine" where
  "users_engine email_def ixs st =
     \<lparr>collections =
        [(''users'',
          \<lparr>c_schema = [(''email'', email_def)],
           c_documents = [(JStr ''u1'', user_doc ''u1'' ''a@x''), (JStr ''u2'', user_doc ''u2'' ''b@x'')],
           c_indexes = JObj []\<rparr>)],
      indexes = ixs, storage = st\<rparr>"

text \<open>The index that \<open>createIndex('users', 'email', {unique: u})\<close> builds from the two
  users.\<close>

definition email_index :: "bool \<Rightarrow> index" where
  "email_index u =
     \<lparr>ix_field = ''email'', ix_unique = u, ix_sparse = False,
      ix_data = [(''a@x'', [JStr ''u1'']), (''b@x'', [JStr ''u2''])]\<rparr>"

definition users_db :: engine where
  "users_db = users_engine (plain_field ''string'') [] empty_storage"

text \<open>The documents of a collection of the engine, and the keys of an index.\<close>

definition documents_of :: "engine \<Rightarrow> string \<Rightarrow> jsval list" where
  "documents_of db name =
     (case map_of (collections db) name of None \<Rightarrow> [] | Some c \<Rightarrow> map snd (c_documents c))"

definition index_entries :: "engine \<Rightarrow> string \<Rightarrow> (string \<times> jsval list) list" where
  "index_entries db indexKey =
     (case map_of (indexes db) indexKey of None \<Rightarrow> [] | Some ix \<Rightarrow> ix_data ix)"

text \<open>The storage object after \<open>setCollection('c', {schema: {}, documents: {}, indexes:
  {}})\<close> on the empty one: the operation log holds the entry of that call.\<close>

definition created_storage :: storage where
  "created_storage =
     (case setCollection empty_storage ''c''
             (JObj [(''schema'', JObj []), (''documents'', JObj []), (''indexes'', JObj [])])
             1700000000000 of
        Inr st \<Rightarrow> st
      | Inl e \<Rightarrow> empty_storage)"

text \<open>The JSON image of \<open>created_storage\<close>: what \<open>JSON.parse\<close> returns for the text
  that a save of it writes.\<close>

definition created_json :: jsval where
  "created_json =
     JObj [(''header'', JObj [(''created'', JStr ''1970-01-01T00:00:00.000Z''),
                              (''modified'', JStr ''1970-01-01T00:00:00.000Z'')]),
           (''collections'',
            JObj [(''c'', JObj [(''schema'', JObj []), (''documents'', JObj []),
                                (''indexes'', JObj [])])]),
           (''indexes'', JObj []),
           (''operationLog'',
            JArr [JObj [(''operation'', JStr ''setCollection''),
                        (''details'', JObj [(''name'', JStr ''c''),
                                            (''timestamp'', JStr ''2023-11-14T22:13:20.000Z'')]),
                        (''timestamp'', JStr ''2023-11-14T22:13:20.000Z'')]])]"


text \<open>A database with the collection \<open>n\<close>, whose schema is \<open>{v: {type: 'number'}}\<close>,
  holding a document with \<open>v = 1\<close> and, after it, a document without \<open>v\<close>.\<close>

definition doc_with_v :: jsval where
  "doc_with_v = JObj [(''v'', JNum 1), (''_id'', JStr ''d1''),
                      (''createdAt'', JDate 1600000000000), (''updatedAt'', JDate 1600000000000)]"

definition doc_without_v :: jsval where
  "doc_without_v = JObj [(''_id'', JStr ''d2''),
                         (''createdAt'', JDate 1600000000000), (''updatedAt'', JDate 1600000000000)]"

definition numbers_db :: engine where
  "numbers_db =
     \<lparr>collections =
        [(''n'',
          \<lparr>c_schema = [(''v'', plain_field ''number'')],
           c_documents = [(JStr ''d1'', doc_with_v), (JStr ''d2'', doc_without_v)],
           c_indexes = JObj []\<rparr>)],
      indexes = [], storage = empty_storage\<rparr>"



text \<open>The users with the field \<open>email\<close> declared \<open>unique\<close> in the schema.\<close>

definition unique_users_db :: engine where
  "unique_users_db = users_engine ((plain_field ''string'')\<lparr>fd_unique := True\<rparr>) [] empty_storage"

text \<open>The users with a unique index on \<open>email\<close>, in the map of the engine and in the
  map of the storage object.\<close>

definition indexed_users_db :: engine where
  "indexed_users_db =
     users_engine (plain_field ''string'') [(''users.email'', email_index True)]
       (empty_storage\<lparr>s_indexes := [(''users.email'', serializeIndex (email_index True))]\<rparr>)"

text \<open>What lets a save with the sample libraries succeed: the data serializes and the
  lengths written to the container fit 32 bits.\<close>

definition sample_savable :: "storage \<Rightarrow> bool" where
  "sample_savable st =
     (length (salt st) = 32
      \<and> (case serializeData st of
            Inl e \<Rightarrow> False
          | Inr img \<Rightarrow> int (length (json_text (json_value img))) < 1000000))"




text \<open>A database with the collection \<open>people\<close> of the schema above holding two documents
  in their stored form, the later one first.\<close>

definition stored_person :: "string \<Rightarrow> string \<Rightarrow> int \<Rightarrow> jsval" where
  "stored_person docId ssn created =
     processDocumentForStorage sample_libs (derive ''pw-one'' sample_salt) (field_iv sample_entropy 0)
       (JObj [(''ssn'', JStr ssn), (''_id'', JStr docId),
              (''createdAt'', JDate created), (''updatedAt'', JDate created)])
       [(''ssn'', (plain_field ''string'')\<lparr>fd_encrypted := True\<rparr>)]"

definition person :: "string \<Rightarrow> string \<Rightarrow> int \<Rightarrow> jsval" where
  "person docId ssn created =
     JObj [(''ssn'', JStr ssn), (''_id'', JStr docId),
           (''createdAt'', JDate created), (''updatedAt'', JDate created)]"

definition two_people_db :: engine where
  "two_people_db =
     \<lparr>collections =
        [(''people'',
          \<lparr>c_schema = [(''ssn'', (plain_field ''string'')\<lparr>fd_encrypted := True\<rparr>)],
           c_documents = [(JStr ''p2'', stored_person ''p2'' ''222-22-2222'' 1650000000000),
                          (JStr ''p1'', stored_person ''p1'' ''111-11-1111'' 1600000000000)],
           c_indexes = JObj []\<rparr>)],
      indexes = [], storage = empty_storage\<rparr>"

section \<open>The claims\<close>

subsection \<open>Helper facts\<close>

lemma relational_number_of:
  "number_of v = Some a \<Longrightarrow> number_of w = Some b \<Longrightarrow> relational rt v w = Some (a < b)"
  by (cases v; cases w) (simp_all add: relational_def)

lemma relational_strings: "relational rt (JStr s) (JStr t) = Some (code_unit_less s t)"
  by (simp add: relational_def)

lemma is_string_iff: "is_string v = (\<exists>s. v = JStr s)"
  by (cases v) simp_all

subsection \<open>Objects and their properties\<close>

lemma member_keys: "List.member (map fst kvs) k = (k \<in> fst ` set kvs)"
  by simp

lemma lookup_replace_prop:
  "f \<in> fst ` set kvs \<Longrightarrow> lookup (replace_prop kvs f v) g = (if g = f then v else lookup kvs g)"
proof (induction kvs)
  case Nil
  then show ?case by simp
next
  case (Cons kv kvs)
  obtain k x where kv: "kv = (k, x)" by (cases kv)
  show ?case
  proof (cases "k = f")
    case True
    then show ?thesis by (simp add: kv)
  next
    case False
    then have "f \<in> fst ` set kvs" using Cons.prems by (auto simp: kv)
    then show ?thesis using Cons.IH False by (cases "g = f") (simp_all add: kv)
  qed
qed

lemma lookup_add_prop:
  "f \<notin> fst ` set kvs \<Longrightarrow> lookup (add_prop kvs f v) g = (if g = f then v else lookup kvs g)"
proof (induction kvs)
  case Nil
  then show ?case by simp
next
  case (Cons kv kvs)
  obtain k x where kv: "kv = (k, x)" by (cases kv)
  have "k \<noteq> f" and "f \<notin> fst ` set kvs" using Cons.prems by (auto simp: kv)
  then show ?case using Cons.IH by (cases "g = f") (auto simp: kv)
qed

lemma lookup_set_prop: "lookup (set_prop kvs f v) g = (if g = f then v else lookup kvs g)"
  by (simp add: set_prop_def member_keys lookup_replace_prop lookup_add_prop)

lemma keys_replace_prop: "map fst (replace_prop kvs f v) = map fst kvs"
  by (induction kvs) auto












lemma add_prop_fresh: "array_index k = None \<Longrightarrow> add_prop kvs k v = kvs @ [(k, v)]"
proof (induction kvs)
  case Nil
  then show ?case by simp
next
  case (Cons kv kvs)
  then show ?case by (cases kv) (simp add: enumerated_before_def)
qed

lemma set_prop_fresh:
  "k \<notin> fst ` set kvs \<Longrightarrow> array_index k = None \<Longrightarrow> set_prop kvs k v = kvs @ [(k, v)]"
  by (simp add: set_prop_def member_keys add_prop_fresh)

lemma mset_add_prop: "mset (add_prop kvs k v) = add_mset (k, v) (mset kvs)"
  by (induction kvs) auto

lemma foldl_set_prop_plain:
  "distinct (map fst (acc @ es)) \<Longrightarrow> list_all (\<lambda>kv. array_index (fst kv) = None) es \<Longrightarrow>
   foldl (\<lambda>acc kv. set_prop acc (fst kv) (snd kv)) acc es = acc @ es"
proof (induction es arbitrary: acc)
  case Nil
  then show ?case by simp
next
  case (Cons e es)
  have "fst e \<notin> fst ` set acc" using Cons.prems by auto
  then have "set_prop acc (fst e) (snd e) = acc @ [e]"
    using Cons.prems(2) by (simp add: set_prop_fresh)
  then show ?case using Cons.IH [of "acc @ [e]"] Cons.prems by simp
qed

lemma keys_mset_add_prop: "mset (map fst (add_prop kvs k v)) = add_mset k (mset (map fst kvs))"
proof -
  have "mset (map fst (add_prop kvs k v)) = image_mset fst (mset (add_prop kvs k v))" by simp
  then show ?thesis unfolding mset_add_prop by simp
qed

lemma foldl_set_prop_mset:
  "distinct (map fst (acc @ es)) \<Longrightarrow>
   mset (foldl (\<lambda>acc kv. set_prop acc (fst kv) (snd kv)) acc es) = mset acc + mset es"
proof (induction es arbitrary: acc)
  case Nil
  then show ?case by simp
next
  case (Cons e es)
  let ?acc = "set_prop acc (fst e) (snd e)"
  have fresh: "fst e \<notin> fst ` set acc" using Cons.prems by auto
  then have add: "?acc = add_prop acc (fst e) (snd e)" by (simp add: set_prop_def)
  have one: "mset ?acc = add_mset e (mset acc)"
    unfolding add by (simp add: mset_add_prop)
  have keys: "mset (map fst ?acc) = add_mset (fst e) (mset (map fst acc))"
    unfolding add by (rule keys_mset_add_prop)
  have "mset (map fst (?acc @ es)) = mset (map fst (acc @ e # es))"
    using keys by simp
  then have "distinct (map fst (?acc @ es)) = distinct (map fst (acc @ e # es))"
    by (rule mset_eq_imp_distinct_iff)
  then have "distinct (map fst (?acc @ es))" using Cons.prems by simp
  from Cons.IH [OF this] one show ?case by simp
qed

lemma fromEntries_mset:
  "distinct (map fst es) \<Longrightarrow> mset (object_entries (fromEntries es)) = mset es"
  using foldl_set_prop_mset [of "[]" es] by (simp add: fromEntries_def)

lemma fromEntries_plain:
  "distinct (map fst es) \<Longrightarrow> list_all (\<lambda>kv. array_index (fst kv) = None) es \<Longrightarrow>
   fromEntries es = JObj es"
  using foldl_set_prop_plain [of "[]" es] by (simp add: fromEntries_def)

lemma set_add_prop: "set (add_prop kvs k v) = insert (k, v) (set kvs)"
proof -
  have "set_mset (mset (add_prop kvs k v)) = set_mset (add_mset (k, v) (mset kvs))"
    by (simp only: mset_add_prop)
  then show ?thesis by simp
qed

lemma enumerated_before_asym: "enumerated_before k k' \<Longrightarrow> \<not> enumerated_before k' k"
  by (auto simp: enumerated_before_def split: option.splits)

lemma enumerated_before_trans:
  "\<not> enumerated_before b k' \<Longrightarrow> enumerated_before k k' \<Longrightarrow> \<not> enumerated_before b k"
  by (auto simp: enumerated_before_def split: option.splits)

lemma enumeration_ordered_add_prop:
  "enumeration_ordered kvs \<Longrightarrow> enumeration_ordered (add_prop kvs k v)"
proof (induction kvs)
  case Nil
  then show ?case by (simp add: enumeration_ordered_def)
next
  case (Cons kv kvs)
  obtain k' v' where kv: "kv = (k', v')" by (cases kv)
  have tl: "enumeration_ordered kvs"
    and hd: "\<And>b. b \<in> set kvs \<Longrightarrow> \<not> enumerated_before (fst b) k'"
    using Cons.prems by (auto simp: enumeration_ordered_def kv)
  show ?case
  proof (cases "enumerated_before k k'")
    case True
    have "\<not> enumerated_before (fst b) k" if "b \<in> set kvs" for b
      using enumerated_before_trans [OF hd [OF that] True] .
    then show ?thesis
      using True Cons.prems enumerated_before_asym [OF True]
      by (auto simp: enumeration_ordered_def kv)
  next
    case False
    have "enumeration_ordered (add_prop kvs k v)" using Cons.IH [OF tl] .
    then show ?thesis
      using False hd by (auto simp: enumeration_ordered_def kv set_add_prop)
  qed
qed

lemma enumeration_ordered_keys:
  "enumeration_ordered kvs
     = sorted_wrt (\<lambda>k k'. \<not> enumerated_before k' k) (map fst kvs)"
  by (simp add: enumeration_ordered_def sorted_wrt_map)

lemma enumeration_ordered_set_prop:
  "enumeration_ordered kvs \<Longrightarrow> enumeration_ordered (set_prop kvs k v)"
  by (simp add: set_prop_def enumeration_ordered_add_prop)
    (simp add: enumeration_ordered_keys keys_replace_prop)

lemma enumeration_ordered_foldl:
  "enumeration_ordered acc \<Longrightarrow>
   enumeration_ordered (foldl (\<lambda>acc kv. set_prop acc (fst kv) (snd kv)) acc es)"
  by (induction es arbitrary: acc) (simp_all add: enumeration_ordered_set_prop)

lemma fromEntries_ordered: "enumeration_ordered (object_entries (fromEntries es))"
  using enumeration_ordered_foldl [of "[]" es]
  by (simp add: fromEntries_def enumeration_ordered_def)

lemma plain_names_add_prop:
  "plain_names (add_prop kvs k v)
     = (if array_index k = None then plain_names kvs @ [(k, v)] else plain_names kvs)"
proof (cases "array_index k")
  case None
  then show ?thesis by (simp add: add_prop_fresh plain_names_def)
next
  case (Some i)
  have "plain_names (add_prop kvs k v) = plain_names kvs"
    by (induction kvs) (auto simp: plain_names_def Some)
  then show ?thesis by (simp add: Some)
qed

lemma plain_names_foldl:
  "distinct (map fst (acc @ es)) \<Longrightarrow>
   plain_names (foldl (\<lambda>acc kv. set_prop acc (fst kv) (snd kv)) acc es)
     = plain_names acc @ plain_names es"
proof (induction es arbitrary: acc)
  case Nil
  then show ?case by (simp add: plain_names_def)
next
  case (Cons e es)
  let ?acc = "set_prop acc (fst e) (snd e)"
  have fresh: "fst e \<notin> fst ` set acc" using Cons.prems by auto
  then have add: "?acc = add_prop acc (fst e) (snd e)" by (simp add: set_prop_def)
  have "mset (map fst (?acc @ es)) = mset (map fst (acc @ e # es))"
    unfolding add using keys_mset_add_prop [of acc "fst e" "snd e"] by simp
  then have "distinct (map fst (?acc @ es)) = distinct (map fst (acc @ e # es))"
    by (rule mset_eq_imp_distinct_iff)
  then have "distinct (map fst (?acc @ es))" using Cons.prems by simp
  from Cons.IH [OF this]
  have "plain_names (foldl (\<lambda>acc kv. set_prop acc (fst kv) (snd kv)) ?acc es)
          = plain_names (add_prop acc (fst e) (snd e)) @ plain_names es"
    unfolding add .
  also have "\<dots> = plain_names acc @ plain_names (e # es)"
    by (simp add: plain_names_add_prop) (simp add: plain_names_def)
  finally show ?case by simp
qed

lemma fromEntries_plain_names:
  "distinct (map fst es) \<Longrightarrow> plain_names (object_entries (fromEntries es)) = plain_names es"
  using plain_names_foldl [of "[]" es] by (simp add: fromEntries_def plain_names_def)

lemma json_props_filter_map:
  "json_props kvs
     = map (\<lambda>kv. (fst kv, json_value (snd kv))) (filter (\<lambda>kv. snd kv \<noteq> JUndefined) kvs)"
  by (induction kvs) auto

lemma json_props_mset: "mset xs = mset ys \<Longrightarrow> mset (json_props xs) = mset (json_props ys)"
proof -
  assume "mset xs = mset ys"
  then have "mset (filter (\<lambda>kv. snd kv \<noteq> JUndefined) xs)
             = mset (filter (\<lambda>kv. snd kv \<noteq> JUndefined) ys)"
    by simp
  then have "image_mset (\<lambda>kv. (fst kv, json_value (snd kv)))
               (mset (filter (\<lambda>kv. snd kv \<noteq> JUndefined) xs))
             = image_mset (\<lambda>kv. (fst kv, json_value (snd kv)))
               (mset (filter (\<lambda>kv. snd kv \<noteq> JUndefined) ys))"
    by simp
  then show ?thesis unfolding json_props_filter_map mset_map .
qed

lemma json_props_ordered: "enumeration_ordered kvs \<Longrightarrow> enumeration_ordered (json_props kvs)"
proof -
  assume "enumeration_ordered kvs"
  then have "sorted_wrt (\<lambda>a b. \<not> enumerated_before (fst b) (fst a))
               (filter (\<lambda>kv. snd kv \<noteq> JUndefined) kvs)"
    unfolding enumeration_ordered_def by (rule sorted_wrt_filter)
  then show ?thesis
    by (simp add: enumeration_ordered_def json_props_filter_map sorted_wrt_map)
qed

lemma json_props_plain_names: "plain_names (json_props kvs) = json_props (plain_names kvs)"
  by (induction kvs) (auto simp: plain_names_def)

lemma fromEntries_order:
  "fromEntries [(''10'', JNum 1), (''b'', JNum 2), (''9'', JNum 3), (''a'', JNum 4), (''01'', JNum 5)]
     = JObj [(''9'', JNum 3), (''10'', JNum 1), (''b'', JNum 2), (''a'', JNum 4), (''01'', JNum 5)]"
  by code_simp

subsection \<open>The container and the round trip of a save\<close>

lemma length_le32 [simp]: "length (le32 n) = 4"
  by (simp add: le32_def)

lemma copy_into_fill:
  "length src \<le> n \<Longrightarrow>
   copy_into (p @ replicate n 0) (length p) src = (p @ src) @ replicate (n - length src) 0"
  by (simp add: copy_into_def)

lemma u32_value:
  fixes n :: nat
  assumes "n < 4294967296"
  shows "n mod 256 + 256 * (n div 256 mod 256) + 65536 * (n div 65536 mod 256)
         + 16777216 * (n div 16777216 mod 256) = n"
proof -
  define q1 where "q1 = n div 256"
  define q2 where "q2 = q1 div 256"
  define q3 where "q3 = q2 div 256"
  have e2: "n div 65536 = q2"
    using div_mult2_eq [of n 256 256] by (simp add: q1_def q2_def)
  have e3: "n div 16777216 = q3"
    using div_mult2_eq [of n 65536 256] e2 by (simp add: q3_def)
  have small: "q3 < 256"
    using assms e3 by (simp add: less_mult_imp_div_less)
  have d0: "n = 256 * q1 + n mod 256" by (simp add: q1_def)
  have d1: "q1 = 256 * q2 + q1 mod 256" by (simp add: q2_def)
  have d2: "q2 = 256 * q3 + q2 mod 256" by (simp add: q3_def)
  have "n div 256 mod 256 = q1 mod 256" by (simp add: q1_def)
  moreover have "n div 65536 mod 256 = q2 mod 256" by (simp add: e2)
  moreover have "n div 16777216 mod 256 = q3" using small by (simp add: e3)
  ultimately show ?thesis using d0 d1 d2 by linarith
qed

lemma le32_bytes:
  "le32 n = [of_nat n, of_nat (n div 256), of_nat (n div 65536), of_nat (n div 16777216)]"
proof -
  have "int n div 256 = int (n div 256)" "int n div 65536 = int (n div 65536)"
    "int n div 16777216 = int (n div 16777216)"
    using zdiv_int [of n 256] zdiv_int [of n 65536] zdiv_int [of n 16777216] by simp_all
  then show ?thesis by (simp add: le32_def)
qed

lemma read_le32:
  assumes "int n < 4294967296"
  shows "readUInt32LE (p @ le32 n @ r) (length p) = Inr n"
proof -
  have n: "n < 4294967296" using assms by linarith
  have b: "uint (of_nat n :: 8 word) = int (n mod 256)"
    "uint (of_nat (n div 256) :: 8 word) = int (n div 256 mod 256)"
    "uint (of_nat (n div 65536) :: 8 word) = int (n div 65536 mod 256)"
    "uint (of_nat (n div 16777216) :: 8 word) = int (n div 16777216 mod 256)"
    by (simp_all add: uint_nat unat_of_nat)
  have v: "nat (int (n mod 256) + 256 * int (n div 256 mod 256)
             + 65536 * int (n div 65536 mod 256) + 16777216 * int (n div 16777216 mod 256)) = n"
    using u32_value [OF n] by linarith
  have r: "readUInt32LE (p @ le32 n @ r) (length p)
      = Inr (nat (uint (of_nat n :: 8 word) + 256 * uint (of_nat (n div 256) :: 8 word)
                  + 65536 * uint (of_nat (n div 65536) :: 8 word)
                  + 16777216 * uint (of_nat (n div 16777216) :: 8 word)))"
    by (simp add: readUInt32LE_def le32_bytes nth_append)
  show ?thesis unfolding r b v ..
qed

lemma slice_middle:
  "buffer_slice (p @ x @ r) (length p) (length p + length x) = x"
  by (simp add: buffer_slice_def)


lemma length_magic [simp]: "length magic = 4"
  by (simp add: magic_def string_bytes_def)

lemma write_u32_at_fill:
  "int v < 4294967296 \<Longrightarrow> 4 \<le> n \<Longrightarrow> length p = k \<Longrightarrow>
   write_u32_at (p @ replicate n 0) v k = Inr ((p @ le32 v) @ replicate (n - 4) 0)"
  using copy_into_fill [of "le32 v" n p]
  by (auto simp: write_u32_at_def writeUInt32LE_def)

lemma copy_into_fill':
  "length src \<le> n \<Longrightarrow> length p = k \<Longrightarrow>
   copy_into (p @ replicate n 0) k src = (p @ src) @ replicate (n - length src) 0"
  using copy_into_fill [of src n p] by simp

lemma copy_into_at:
  "length p = k \<Longrightarrow> length src + j = n \<Longrightarrow>
   copy_into (p @ replicate n 0) k src = (p @ src) @ replicate j 0"
  using copy_into_fill [of src n p] by auto

lemma write_u32_at_at:
  "int v < 4294967296 \<Longrightarrow> length p = k \<Longrightarrow> 4 + j = n \<Longrightarrow>
   write_u32_at (p @ replicate n 0) v k = Inr ((p @ le32 v) @ replicate j 0)"
  using copy_into_at [of p k "le32 v" j n]
  by (simp add: write_u32_at_def writeUInt32LE_def)

lemma buildFileBuffer_layout:
  assumes s: "int (length (salt st)) < 4294967296"
    and e: "int (16 + length encrypted) < 4294967296"
    and iv: "length iv = 16"
    and c: "length (sha256_hex lb encrypted) = 64"
  shows "buildFileBuffer lb st (encrypted, iv)
         = Inr (container (salt st) (sha256_hex lb encrypted) iv encrypted)"
proof -
  let ?n = "length (salt st)" and ?m = "length encrypted"
  let ?cs = "string_bytes (sha256_hex lb encrypted)"
  let ?p1 = "[] @ magic"
  let ?p2 = "?p1 @ le32 1"
  let ?p3 = "?p2 @ le32 ?n"
  let ?p4 = "?p3 @ salt st"
  let ?p5 = "?p4 @ le32 64"
  let ?p6 = "?p5 @ ?cs"
  let ?p7 = "?p6 @ le32 (16 + ?m)"
  let ?p8 = "?p7 @ iv"
  have lcs: "length ?cs = 64" "take 64 ?cs = ?cs" using c by (simp_all add: string_bytes_def)
  have b0: "copy_into (replicate (4 + 4 + (4 + ?n) + (4 + 64) + (4 + 16 + ?m)) 0) 0 magic
            = ?p1 @ replicate (96 + ?n + ?m) 0"
    using copy_into_at [of "[]" 0 magic "96 + ?n + ?m" "4 + 4 + (4 + ?n) + (4 + 64) + (4 + 16 + ?m)"]
    by simp
  have b1: "write_u32_at (?p1 @ replicate (96 + ?n + ?m) 0) 1 4
            = Inr (?p2 @ replicate (92 + ?n + ?m) 0)"
    by (rule write_u32_at_at) simp_all
  have b2: "write_u32_at (?p2 @ replicate (92 + ?n + ?m) 0) ?n 8
            = Inr (?p3 @ replicate (88 + ?n + ?m) 0)"
    by (rule write_u32_at_at) (use s in simp_all)
  have b3: "copy_into (?p3 @ replicate (88 + ?n + ?m) 0) 12 (salt st)
            = ?p4 @ replicate (88 + ?m) 0"
    by (rule copy_into_at) simp_all
  have b4: "write_u32_at (?p4 @ replicate (88 + ?m) 0) 64 (12 + ?n)
            = Inr (?p5 @ replicate (84 + ?m) 0)"
    by (rule write_u32_at_at) simp_all
  have b5: "copy_into (?p5 @ replicate (84 + ?m) 0) (12 + ?n + 4) (take 64 ?cs)
            = ?p6 @ replicate (20 + ?m) 0"
    unfolding lcs by (rule copy_into_at) (simp_all add: lcs)
  have b6: "write_u32_at (?p6 @ replicate (20 + ?m) 0) (16 + ?m) (12 + ?n + 68)
            = Inr (?p7 @ replicate (16 + ?m) 0)"
    by (rule write_u32_at_at) (use e in \<open>simp_all add: lcs\<close>)
  have b7: "copy_into (?p7 @ replicate (16 + ?m) 0) (12 + ?n + 72) iv
            = ?p8 @ replicate ?m 0"
    by (rule copy_into_at) (simp_all add: lcs iv)
  have b8: "copy_into (?p8 @ replicate ?m 0) (12 + ?n + 88) encrypted
            = (?p8 @ encrypted) @ replicate 0 0"
    by (rule copy_into_at) (simp_all add: lcs iv)
  have "buildFileBuffer lb st (encrypted, iv) = Inr ((?p8 @ encrypted) @ replicate 0 0)"
    unfolding buildFileBuffer_def Let_def fst_conv snd_conv generateChecksum_def
    unfolding b0 b1 b2 b3 b4 b5 b6 b7 b8 sum.case ..
  then show ?thesis by (simp add: container_def)
qed

lemma read_container_layout:
  assumes s: "int (length slt) < 4294967296"
    and e: "int (16 + length encrypted) < 4294967296"
    and iv: "length iv = 16"
    and c: "length checksum = 64"
  shows "read_container (container slt checksum iv encrypted) = Inr (slt, checksum, iv, encrypted)"
proof -
  let ?cs = "string_bytes checksum"
  let ?file = "container slt checksum iv encrypted"
  have lcs: "length ?cs = 64" using c by (simp add: string_bytes_def)
  have cs: "bytes_string ?cs = checksum"
    by (simp add: bytes_string_def string_bytes_def comp_def map_idI unat_of_nat)
  have m: "buffer_slice ?file 0 4 = magic"
    using slice_middle [of "[]" magic] by (simp add: container_def)
  have v: "readUInt32LE ?file 4 = Inr 1"
    using read_le32 [of 1 magic] by (simp add: container_def)
  have sl: "readUInt32LE ?file 8 = Inr (length slt)"
    using read_le32 [of "length slt" "magic @ le32 1"] s by (simp add: container_def)
  have sv: "buffer_slice ?file 12 (12 + length slt) = slt"
    using slice_middle [of "magic @ le32 1 @ le32 (length slt)" slt] by (simp add: container_def)
  have cl: "readUInt32LE ?file (12 + length slt) = Inr 64"
    using read_le32 [of 64 "magic @ le32 1 @ le32 (length slt) @ slt"] by (simp add: container_def)
  have cv: "buffer_slice ?file (12 + length slt + 4) (12 + length slt + 4 + 64) = ?cs"
    using slice_middle [of "magic @ le32 1 @ le32 (length slt) @ slt @ le32 64" ?cs] lcs
    by (simp add: container_def)
  have el: "readUInt32LE ?file (12 + length slt + 4 + 64) = Inr (16 + length encrypted)"
    using read_le32 [of "16 + length encrypted" "magic @ le32 1 @ le32 (length slt) @ slt @ le32 64 @ ?cs"]
      e lcs by (simp add: container_def)
  have ivv: "buffer_slice ?file (12 + length slt + 4 + 64 + 4) (12 + length slt + 4 + 64 + 4 + 16) = iv"
    using slice_middle [of "magic @ le32 1 @ le32 (length slt) @ slt @ le32 64 @ ?cs
        @ le32 (16 + length encrypted)" iv] lcs iv
    by (simp add: container_def)
  have ev: "buffer_slice ?file (12 + length slt + 4 + 64 + 4 + 16)
              (12 + length slt + 4 + 64 + 4 + 16 + (16 + length encrypted) - 16) = encrypted"
    using slice_middle [of "magic @ le32 1 @ le32 (length slt) @ slt @ le32 64 @ ?cs
        @ le32 (16 + length encrypted) @ iv" encrypted "[]"] lcs iv
    by (simp add: container_def add.assoc)
  show ?thesis
    unfolding read_container_def Let_def
    unfolding m v sl sum.case cl el ivv ev sv cv cs
    by simp
qed


lemma buildFileBuffer_bounds:
  "buildFileBuffer lb st ed = Inr b \<Longrightarrow>
   int (length (salt st)) < 4294967296 \<and> int (16 + length (fst ed)) < 4294967296"
  by (auto simp: buildFileBuffer_def write_u32_at_def writeUInt32LE_def Let_def
      split: sum.splits if_splits)

lemma load_image_of_json:
  "load_image rt st (json_value (JObj [(''header'', JObj [(''created'', JStr c), (''modified'', JStr m)]),
                     (''collections'', JObj cs), (''indexes'', JObj ixs), (''operationLog'', oplog)]))
   = Inr (st\<lparr>header_created := date_parse rt c, header_modified := date_parse rt m,
              s_collections := json_props cs, s_indexes := json_props ixs,
              operationLog := (if truthy (json_value oplog) then json_value oplog else JArr [])\<rparr>)"
  by (cases "oplog = JUndefined") (simp_all add: load_image_def new_date_def)

lemma save_then_parse:
  assumes save: "saveToFile lb iv t st = Inr st'"
    and key: "encryptionKey st = pbkdf2 lb password (salt st)"
    and iv: "length iv = 16"
    and inv: "libs_invert_save lb iv st"
  shows "\<exists>fileBuffer loaded. disk st' = Some fileBuffer
           \<and> parseVDBFile rt lb st0 fileBuffer password = Inr loaded
           \<and> s_collections loaded = json_props (object_entries (fromEntries (s_collections st)))
           \<and> s_indexes loaded = json_props (object_entries (fromEntries (s_indexes st)))
           \<and> operationLog loaded
               = (if truthy (json_value (operationLog st)) then json_value (operationLog st)
                  else JArr [])"
proof -
  from save obtain img where img: "serializeData st = Inr img"
    by (auto simp: saveToFile_def split: sum.splits)
  let ?text = "json_write lb img"
  let ?enc = "aes_encrypt lb (encryptionKey st) iv (gzip lb ?text)"
  let ?cs = "foldl (\<lambda>acc kv. set_prop acc (fst kv) (snd kv)) [] (s_collections st)"
  let ?ixs = "foldl (\<lambda>acc kv. set_prop acc (fst kv) (snd kv)) [] (s_indexes st)"
  from save img obtain fileBuffer where fb: "buildFileBuffer lb st (?enc, iv) = Inr fileBuffer"
    and st': "st' = st\<lparr>disk := Some fileBuffer, header_modified := Some t\<rparr>"
    by (auto simp: saveToFile_def encrypt_def Let_def split: sum.splits)
  from inv img have c64: "length (sha256_hex lb ?enc) = 64"
    and dec: "aes_decrypt lb (encryptionKey st) iv ?enc = Some (gzip lb ?text)"
    and unz: "gunzip lb (gzip lb ?text) = Some ?text"
    and js: "json_read lb ?text = Some (json_value img)"
    by (simp_all add: libs_invert_save_def)
  have bounds: "int (length (salt st)) < 4294967296" "int (16 + length ?enc) < 4294967296"
    using buildFileBuffer_bounds [OF fb] by simp_all
  have layout: "fileBuffer = container (salt st) (sha256_hex lb ?enc) iv ?enc"
    using buildFileBuffer_layout [OF bounds iv c64] fb by simp
  have rc: "read_container fileBuffer = Inr (salt st, sha256_hex lb ?enc, iv, ?enc)"
    unfolding layout by (rule read_container_layout [OF bounds iv c64])
  have rp: "read_payload lb (pbkdf2 lb password (salt st)) (sha256_hex lb ?enc) iv ?enc
            = Inr (json_value img)"
    using dec unz js key
    by (simp add: read_payload_def verifyChecksum_def generateChecksum_def decrypt_def)
  from img obtain c m where
    shape: "img = JObj [(''header'', JObj [(''created'', JStr c), (''modified'', JStr m)]),
                     (''collections'', JObj ?cs), (''indexes'', JObj ?ixs),
                     (''operationLog'', operationLog st)]"
    unfolding serializeData_def fromEntries_def by (auto split: option.splits)
  have "parseVDBFile rt lb st0 fileBuffer password
        = load_image rt (st0\<lparr>salt := salt st, encryptionKey := pbkdf2 lb password (salt st)\<rparr>)
            (json_value img)"
    by (simp add: parseVDBFile_def rc rp)
  then show ?thesis
    unfolding st' shape load_image_of_json by (simp add: fromEntries_def)
qed

lemma loaded_entries:
  assumes "distinct (map fst es)"
  shows "mset (json_props (object_entries (fromEntries es))) = mset (json_props es)"
    and "enumeration_ordered (json_props (object_entries (fromEntries es)))"
    and "plain_names (json_props (object_entries (fromEntries es))) = json_props (plain_names es)"
  using json_props_mset [OF fromEntries_mset [OF assms]] fromEntries_plain_names [OF assms]
    json_props_ordered [OF fromEntries_ordered [of es]]
  by (simp_all add: json_props_plain_names)

lemma bytes_string_string_bytes: "bytes_string (string_bytes s) = s"
  by (simp add: bytes_string_def string_bytes_def comp_def map_idI unat_of_nat)

lemma unstore_store: "unstore (store bs) = Some bs"
  by (simp add: unstore_def store_def)

lemma stream_sub_add: "stream_sub key iv i (stream_add key iv i bs) = bs"
  by (induction bs arbitrary: i) simp_all

lemma length_stream_add: "length (stream_add key iv i bs) = length bs"
  by (induction bs arbitrary: i) simp_all

lemma length_poly_checksum: "length (poly_checksum bs) = 64"
  by (simp add: poly_checksum_def)

lemma length_derive: "length (derive password salt_bytes) = 32"
  by (simp add: derive_def Let_def)

lemma length_string_bytes: "length (string_bytes s) = length s"
  by (simp add: string_bytes_def)

lemma text_read_text_write:
  assumes "parse_value (2 * length (json_text (json_value v)) + 2) (json_text (json_value v))
           = Some (j, [])"
  shows "text_read (text_write v) = Some j"
  unfolding text_read_def text_write_def bytes_string_string_bytes length_string_bytes assms
  by simp

lemma sample_libs_simps:
  "json_write sample_libs = text_write" "json_read sample_libs = text_read"
  "base64_encode sample_libs = b64_encode" "base64_decode sample_libs = b64_decode"
  "gzip sample_libs = store" "gunzip sample_libs = unstore"
  "aes_encrypt sample_libs key iv bs = stream_add key iv 0 bs"
  "aes_decrypt sample_libs = stream_decrypt"
  "sha256_hex sample_libs = poly_checksum" "pbkdf2 sample_libs = derive"
  by (simp_all add: sample_libs_def)

lemma sample_libs_invert_save:
  assumes img: "serializeData st = Inr img"
    and k: "length (encryptionKey st) = 32" and iv: "length iv = 16"
    and p: "parse_value (2 * length (json_text (json_value img)) + 2) (json_text (json_value img))
         = Some (json_value img, [])"
  shows "libs_invert_save sample_libs iv st"
  unfolding libs_invert_save_def img sum.case sample_libs_simps
  using k iv text_read_text_write [OF p]
  by (simp add: length_poly_checksum stream_decrypt_def stream_sub_add unstore_store)

lemma saveToFile_succeeds:
  assumes "serializeData st = Inr img"
    and "int (length (salt st)) < 4294967296"
    and "int (16 + length (aes_encrypt lb (encryptionKey st) iv (gzip lb (json_write lb img))))
         < 4294967296"
  shows "\<exists>st'. saveToFile lb iv t st = Inr st'"
  using assms
  by (simp add: saveToFile_def buildFileBuffer_def write_u32_at_def writeUInt32LE_def encrypt_def
      Let_def)

lemma sample_save_succeeds:
  assumes "serializeData st = Inr img"
    and "length (salt st) = 32"
    and "length (json_text (json_value img)) = n" and "n < 1000000"
  shows "\<exists>st'. saveToFile sample_libs iv t st = Inr st'"
proof (rule saveToFile_succeeds [OF assms(1)])
  show "int (length (salt st)) < 4294967296" using assms(2) by simp
  show "int (16 + length (aes_encrypt sample_libs (encryptionKey st) iv
              (gzip sample_libs (json_write sample_libs img)))) < 4294967296"
    using assms(3,4)
    by (simp add: sample_libs_simps length_stream_add store_def text_write_def string_bytes_def)
qed

lemma created_storage_fields:
  "s_collections created_storage
     = [(''c'', JObj [(''schema'', JObj []), (''documents'', JObj []), (''indexes'', JObj [])])]"
  "s_indexes created_storage = []"
  "operationLog created_storage
     = JArr [JObj [(''operation'', JStr ''setCollection''),
                   (''details'', JObj [(''name'', JStr ''c''), (''timestamp'', JDate 1700000000000)]),
                   (''timestamp'', JDate 1700000000000)]]"
  "salt created_storage = sample_salt"
  "encryptionKey created_storage = derive ''pw-one'' sample_salt"
  "header_created created_storage = Some 0" "header_modified created_storage = Some 0"
  by (simp_all add: created_storage_def setCollection_def logOperation_def empty_storage_def)

lemma created_image:
  "\<exists>img. serializeData created_storage = Inr img \<and> json_value img = created_json"
proof -
  have "map_sum id json_value (serializeData created_storage) = Inr created_json"
    by code_simp
  then show ?thesis by (cases "serializeData created_storage") auto
qed

lemma created_json_length: "length (json_text created_json) = 310"
  by code_simp

lemma created_json_parse:
  "parse_value (2 * length (json_text created_json) + 2) (json_text created_json)
     = Some (created_json, [])"
  by code_simp

lemma created_saved:
  "\<exists>saved. saveToFile sample_libs (replicate 16 9) 1700000000001 created_storage = Inr saved"
proof -
  obtain img where img: "serializeData created_storage = Inr img"
    and j: "json_value img = created_json"
    using created_image by blast
  have len: "length (json_text (json_value img)) = 310"
    unfolding j by (rule created_json_length)
  have "length (salt created_storage) = 32"
    by (simp add: created_storage_fields sample_salt_def)
  from sample_save_succeeds [OF img this len, of "replicate 16 9" 1700000000001]
  show ?thesis by simp
qed

lemma created_invertible: "libs_invert_save sample_libs (replicate 16 9) created_storage"
proof -
  obtain img where img: "serializeData created_storage = Inr img"
    and j: "json_value img = created_json"
    using created_image by blast
  have parse: "parse_value (2 * length (json_text (json_value img)) + 2) (json_text (json_value img))
               = Some (json_value img, [])"
    unfolding j by (rule created_json_parse)
  show ?thesis
    by (rule sample_libs_invert_save [OF img _ _ parse])
      (simp_all add: created_storage_fields length_derive)
qed

lemma created_key:
  "encryptionKey created_storage = pbkdf2 sample_libs ''pw-one'' (salt created_storage)"
  by (simp add: created_storage_fields sample_libs_simps)

lemma created_log_image:
  "json_value (operationLog created_storage) = get_prop created_json ''operationLog''"
proof -
  obtain img where img: "serializeData created_storage = Inr img"
    and j: "json_value img = created_json"
    using created_image by blast
  have img_eq: "img = JObj [(''header'', JObj [(''created'', JStr (toISOString 0)),
                                              (''modified'', JStr (toISOString 0))]),
                     (''collections'', fromEntries (s_collections created_storage)),
                     (''indexes'', fromEntries (s_indexes created_storage)),
                     (''operationLog'', operationLog created_storage)]"
    using img by (simp add: serializeData_def created_storage_fields)
  have "get_prop (json_value img) ''operationLog'' = json_value (operationLog created_storage)"
    unfolding img_eq by (simp add: created_storage_fields fromEntries_def)
  then show ?thesis unfolding j by simp
qed

lemma created_round_trip:
  "\<exists>saved fileBuffer loaded.
      saveToFile sample_libs (replicate 16 9) 1700000000001 created_storage = Inr saved
    \<and> disk saved = Some fileBuffer
    \<and> parseVDBFile sample_runtime sample_libs empty_storage fileBuffer ''pw-one'' = Inr loaded
    \<and> s_collections loaded = s_collections created_storage
    \<and> s_indexes loaded = s_indexes created_storage
    \<and> operationLog loaded = get_prop created_json ''operationLog''"
proof -
  obtain saved where saved:
    "saveToFile sample_libs (replicate 16 9) 1700000000001 created_storage = Inr saved"
    using created_saved by blast
  have iv: "length (replicate 16 (9 :: 8 word)) = 16" by simp
  from save_then_parse [OF saved created_key iv created_invertible, of sample_runtime empty_storage]
  obtain fileBuffer loaded where r:
    "disk saved = Some fileBuffer"
    "parseVDBFile sample_runtime sample_libs empty_storage fileBuffer ''pw-one'' = Inr loaded"
    "s_collections loaded
       = json_props (object_entries (fromEntries (s_collections created_storage)))"
    "s_indexes loaded = json_props (object_entries (fromEntries (s_indexes created_storage)))"
    "operationLog loaded
       = (if truthy (json_value (operationLog created_storage))
          then json_value (operationLog created_storage) else JArr [])"
    by auto
  have "truthy (json_value (operationLog created_storage))"
    unfolding created_log_image by (simp add: created_json_def)
  with r have "operationLog loaded = get_prop created_json ''operationLog''"
    by (simp add: created_log_image)
  moreover have "json_props (object_entries (fromEntries (s_collections created_storage)))
                 = s_collections created_storage"
    "json_props (object_entries (fromEntries (s_indexes created_storage)))
     = s_indexes created_storage"
    unfolding created_storage_fields by code_simp+
  ultimately show ?thesis using saved r by auto
qed

subsection \<open>Encrypted fields\<close>












subsection \<open>Operations that save\<close>

lemma sample_savable_saves:
  assumes "sample_savable st"
  shows "\<exists>st'. saveToFile sample_libs iv t st = Inr st'"
proof -
  obtain img where img: "serializeData st = Inr img"
    and n: "int (length (json_text (json_value img))) < 1000000" and s: "length (salt st) = 32"
    using assms by (auto simp: sample_savable_def split: sum.splits)
  from n have "length (json_text (json_value img)) < 1000000" by simp
  from sample_save_succeeds [OF img s refl this] show ?thesis .
qed

lemma saveToFile_keeps:
  "saveToFile lb iv t st = Inr st' \<Longrightarrow>
   s_collections st' = s_collections st \<and> s_indexes st' = s_indexes st
   \<and> operationLog st' = operationLog st"
  by (auto simp: saveToFile_def Let_def split: sum.splits)

lemma saveCollection_keeps:
  "collections (fst (saveCollection rt lb en db c)) = collections db
   \<and> indexes (fst (saveCollection rt lb en db c)) = indexes db"
  by (simp add: saveCollection_def split: option.splits sum.splits)

lemma saveCollection_succeeds:
  assumes "map_of (collections db) c = Some col"
    and "setCollection (storage db) c
           (JObj [(''schema'', serializeSchema (c_schema col)),
                  (''documents'', documents_object rt (c_documents col)),
                  (''indexes'', c_indexes col)]) (now en) = Inr st1"
    and "\<exists>st2. saveToFile lb (save_iv en) (now en) st1 = Inr st2"
  shows "snd (saveCollection rt lb en db c) = None"
  using assms by (auto simp: saveCollection_def)

lemma sample_saveCollection_succeeds:
  assumes "(case map_of (collections db) c of
              None \<Rightarrow> False
            | Some col \<Rightarrow>
                (case setCollection (storage db) c
                        (JObj [(''schema'', serializeSchema (c_schema col)),
                               (''documents'', documents_object rt (c_documents col)),
                               (''indexes'', c_indexes col)]) (now en) of
                   Inl e \<Rightarrow> False
                 | Inr st1 \<Rightarrow> sample_savable st1))"
  shows "snd (saveCollection rt sample_libs en db c) = None"
proof -
  obtain col st1 where col: "map_of (collections db) c = Some col"
    and st1: "setCollection (storage db) c
                (JObj [(''schema'', serializeSchema (c_schema col)),
                       (''documents'', documents_object rt (c_documents col)),
                       (''indexes'', c_indexes col)]) (now en) = Inr st1"
    and s: "sample_savable st1"
    using assms by (auto split: option.splits sum.splits)
  show ?thesis
    using saveCollection_succeeds [OF col st1] sample_savable_saves [OF s] by simp
qed


lemma update_succeeds:
  assumes "getCollection db c = Inr col"
    and "filterDocuments rt lb (encryptionKey (storage db)) (map snd (c_documents col)) q
           (c_schema col) = Inr (doc # docs)"
    and "snd (update_documents rt lb en c (c_schema col) u (\<not> strict_eq multi (JBool False))
           (doc # docs) 0 db) = Inr n"
    and "snd (saveCollection rt lb en
           (fst (update_documents rt lb en c (c_schema col) u (\<not> strict_eq multi (JBool False))
              (doc # docs) 0 db)) c) = None"
  shows "snd (update rt lb en db c q u multi) = Inr (Suc (length docs), n)
         \<and> collections (fst (update rt lb en db c q u multi))
           = collections (fst (update_documents rt lb en c (c_schema col) u
                (\<not> strict_eq multi (JBool False)) (doc # docs) 0 db))"
  using assms
    saveCollection_keeps [of rt lb en "fst (update_documents rt lb en c (c_schema col) u
                (\<not> strict_eq multi (JBool False)) (doc # docs) 0 db)" c]
  by (auto simp: update_def split: prod.splits option.splits sum.splits)

lemma dropCollection_succeeds:
  assumes "map_has (collections db) name"
    and "deleteCollection (storage db) name (now en) = Inr st1"
    and "\<exists>st2. saveToFile lb (save_iv en) (now en) st1 = Inr st2"
  shows "snd (dropCollection lb en db name) = None
         \<and> s_indexes (storage (fst (dropCollection lb en db name))) = s_indexes st1
         \<and> s_collections (storage (fst (dropCollection lb en db name))) = s_collections st1"
  using assms saveToFile_keeps [of lb "save_iv en" "now en" st1]
  by (auto simp: dropCollection_def)

lemma dropCollection_keeps_indexes: "indexes (fst (dropCollection lb en db name)) = indexes db"
  by (simp add: dropCollection_def Let_def split: sum.splits)

lemma nat_to_string_0: "nat_to_string 0 = ''0''"
  by code_simp











subsection \<open>The comparator of a sort and the insertion sort\<close>

lemma code_unit_less_irrefl: "\<not> code_unit_less s s"
  by (induction s) auto

lemma code_unit_less_trans:
  "code_unit_less s t \<Longrightarrow> code_unit_less t u \<Longrightarrow> code_unit_less s u"
proof (induction s t arbitrary: u rule: code_unit_less.induct)
  case 1
  then show ?case by simp
next
  case (2 y ys)
  then show ?case by (cases u) simp_all
next
  case (3 x xs)
  then show ?case by simp
next
  case (4 x xs y ys)
  show ?case
  proof (cases u)
    case Nil
    then show ?thesis using 4 by simp
  next
    case (Cons z zs)
    then show ?thesis using 4 by auto
  qed
qed

lemma code_unit_less_total: "code_unit_less s t \<or> s = t \<or> code_unit_less t s"
proof (induction s t rule: code_unit_less.induct)
  case (4 x xs y ys)
  have "(of_char x :: nat) < of_char y \<or> x = y \<or> (of_char y :: nat) < of_char x"
    using of_char_eq_iff [of x y, where ?'a = nat] by linarith
  then show ?case using 4 by auto
qed simp_all

lemma code_unit_less_asym: "code_unit_less s t \<Longrightarrow> \<not> code_unit_less t s"
  using code_unit_less_trans code_unit_less_irrefl by blast

lemma set_insert_sorted: "set (insert_sorted cmp x ys) = insert x (set ys)"
  by (induction ys) auto

lemma set_stable_sort: "set (stable_sort cmp xs) = set xs"
  by (induction xs) (simp_all add: stable_sort_def set_insert_sorted)

lemma sorted_insert_sorted:
  assumes total: "\<And>a b. a \<in> S \<Longrightarrow> b \<in> S \<Longrightarrow> \<not> cmp a b \<le> 0 \<Longrightarrow> cmp b a \<le> 0"
    and trans: "\<And>a b d. a \<in> S \<Longrightarrow> b \<in> S \<Longrightarrow> d \<in> S \<Longrightarrow> cmp a b \<le> 0 \<Longrightarrow> cmp b d \<le> 0
                  \<Longrightarrow> cmp a d \<le> 0"
    and "x \<in> S" and "set ys \<subseteq> S" and "sorted_wrt (\<lambda>a b. cmp a b \<le> 0) ys"
  shows "sorted_wrt (\<lambda>a b. cmp a b \<le> 0) (insert_sorted cmp x ys)"
  using assms(3-)
proof (induction ys)
  case Nil
  then show ?case by simp
next
  case (Cons y ys)
  show ?case
  proof (cases "cmp x y \<le> 0")
    case True
    have "cmp x z \<le> 0" if "z \<in> set ys" for z
      using trans [of x y z] True Cons.prems that by auto
    then show ?thesis using True Cons.prems by auto
  next
    case False
    have "cmp y x \<le> 0" using total [of x y] False Cons.prems by auto
    moreover have "sorted_wrt (\<lambda>a b. cmp a b \<le> 0) (insert_sorted cmp x ys)"
      using Cons by auto
    ultimately show ?thesis using False Cons.prems by (auto simp: set_insert_sorted)
  qed
qed

lemma sorted_stable_sort:
  assumes total: "\<And>a b. a \<in> S \<Longrightarrow> b \<in> S \<Longrightarrow> \<not> cmp a b \<le> 0 \<Longrightarrow> cmp b a \<le> 0"
    and trans: "\<And>a b d. a \<in> S \<Longrightarrow> b \<in> S \<Longrightarrow> d \<in> S \<Longrightarrow> cmp a b \<le> 0 \<Longrightarrow> cmp b d \<le> 0
                  \<Longrightarrow> cmp a d \<le> 0"
    and "set xs \<subseteq> S"
  shows "sorted_wrt (\<lambda>a b. cmp a b \<le> 0) (stable_sort cmp xs)"
  using assms(3)
proof (induction xs)
  case Nil
  then show ?case by (simp add: stable_sort_def)
next
  case (Cons x xs)
  have "sorted_wrt (\<lambda>a b. cmp a b \<le> 0) (stable_sort cmp xs)" using Cons by simp
  then have "sorted_wrt (\<lambda>a b. cmp a b \<le> 0) (insert_sorted cmp x (stable_sort cmp xs))"
    using Cons.prems by (intro sorted_insert_sorted [of S cmp, OF total trans]) (auto simp: set_stable_sort)
  then show ?case by (simp add: stable_sort_def)
qed


lemma value_compare_numbers:
  "number_of a = Some x \<Longrightarrow> number_of b = Some y \<Longrightarrow>
   value_compare a b = (if x < y then - 1 else if y < x then 1 else 0)"
  by (cases a; cases b) (simp_all add: value_compare_def)

lemma value_compare_strings:
  "value_compare (JStr s) (JStr t)
     = (if code_unit_less s t then - 1 else if code_unit_less t s then 1 else 0)"
  by (simp add: value_compare_def)

lemma value_compare_undefined: "value_compare JUndefined JUndefined = 0"
  by (simp add: value_compare_def)

lemma comparison_value_compare:
  assumes "(is_string a \<and> is_string b) \<or> (number_of a \<noteq> None \<and> number_of b \<noteq> None)
           \<or> (a = JUndefined \<and> b = JUndefined)"
  shows "(if js_lt rt a b then - 1 else if js_gt rt a b then 1 else (0::int)) = value_compare a b"
  using assms
proof (elim disjE)
  assume "is_string a \<and> is_string b"
  then obtain s t where "a = JStr s" "b = JStr t" by (auto simp: is_string_iff)
  then show ?thesis
    by (simp add: js_lt_def js_gt_def relational_strings value_compare_strings)
next
  assume "number_of a \<noteq> None \<and> number_of b \<noteq> None"
  then obtain x y where n: "number_of a = Some x" "number_of b = Some y" by auto
  show ?thesis
    by (simp add: js_lt_def js_gt_def relational_number_of [OF n]
        relational_number_of [OF n(2) n(1)] value_compare_numbers [OF n])
next
  assume "a = JUndefined \<and> b = JUndefined"
  then show ?thesis
    by (simp add: js_lt_def js_gt_def relational_def value_compare_undefined)
qed

lemma value_compare_antisym:
  assumes "(is_string a \<and> is_string b) \<or> (number_of a \<noteq> None \<and> number_of b \<noteq> None)
           \<or> (a = JUndefined \<and> b = JUndefined)"
  shows "value_compare a b = - value_compare b a"
  using assms
proof (elim disjE)
  assume "is_string a \<and> is_string b"
  then obtain s t where "a = JStr s" "b = JStr t" by (auto simp: is_string_iff)
  then show ?thesis
    using code_unit_less_asym [of s t] by (auto simp: value_compare_strings)
next
  assume "number_of a \<noteq> None \<and> number_of b \<noteq> None"
  then obtain x y where n: "number_of a = Some x" "number_of b = Some y" by auto
  show ?thesis
    by (simp add: value_compare_numbers [OF n] value_compare_numbers [OF n(2) n(1)])
next
  assume "a = JUndefined \<and> b = JUndefined"
  then show ?thesis by (simp add: value_compare_undefined)
qed

lemma value_compare_trans:
  assumes "(is_string a \<and> is_string b \<and> is_string d)
           \<or> (number_of a \<noteq> None \<and> number_of b \<noteq> None \<and> number_of d \<noteq> None)
           \<or> (a = JUndefined \<and> b = JUndefined \<and> d = JUndefined)"
    and "value_compare a b \<le> 0" and "value_compare b d \<le> 0"
  shows "value_compare a d \<le> 0 \<and> (value_compare a d = 0 \<longrightarrow> value_compare a b = 0 \<and> value_compare b d = 0)"
  using assms(1)
proof (elim disjE)
  assume "is_string a \<and> is_string b \<and> is_string d"
  then obtain s t u where v: "a = JStr s" "b = JStr t" "d = JStr u" by (auto simp: is_string_iff)
  have st: "\<not> code_unit_less t s" and tu: "\<not> code_unit_less u t"
    using assms(2,3) code_unit_less_asym [of s t] code_unit_less_asym [of t u]
    by (auto simp: v value_compare_strings split: if_splits)
  have us: "\<not> code_unit_less u s"
    using st tu code_unit_less_total [of s t] code_unit_less_total [of t u]
      code_unit_less_trans [of u s t] code_unit_less_trans [of t u s]
    by auto
  have "code_unit_less s t \<or> code_unit_less t u \<Longrightarrow> code_unit_less s u"
    using st tu code_unit_less_total [of s t] code_unit_less_total [of t u]
      code_unit_less_trans [of s t u]
    by auto
  then show ?thesis
    using us st tu by (auto simp: v value_compare_strings)
next
  assume "number_of a \<noteq> None \<and> number_of b \<noteq> None \<and> number_of d \<noteq> None"
  then obtain x y z where n: "number_of a = Some x" "number_of b = Some y" "number_of d = Some z"
    by auto
  show ?thesis
    using assms(2,3)
    by (auto simp: value_compare_numbers [OF n(1) n(2)] value_compare_numbers [OF n(2) n(3)]
        value_compare_numbers [OF n(1) n(3)] split: if_splits)
next
  assume "a = JUndefined \<and> b = JUndefined \<and> d = JUndefined"
  then show ?thesis by (simp add: value_compare_undefined)
qed

lemma value_compare_trans_ge:
  assumes c: "(is_string a \<and> is_string b \<and> is_string d)
           \<or> (number_of a \<noteq> None \<and> number_of b \<noteq> None \<and> number_of d \<noteq> None)
           \<or> (a = JUndefined \<and> b = JUndefined \<and> d = JUndefined)"
    and "0 \<le> value_compare a b" and "0 \<le> value_compare b d"
  shows "0 \<le> value_compare a d \<and> (value_compare a d = 0 \<longrightarrow> value_compare a b = 0 \<and> value_compare b d = 0)"
proof -
  have ab: "value_compare a b = - value_compare b a"
    and bd: "value_compare b d = - value_compare d b"
    and ad: "value_compare a d = - value_compare d a"
    using c by (auto intro!: value_compare_antisym)
  have c': "(is_string d \<and> is_string b \<and> is_string a)
           \<or> (number_of d \<noteq> None \<and> number_of b \<noteq> None \<and> number_of a \<noteq> None)
           \<or> (d = JUndefined \<and> b = JUndefined \<and> a = JUndefined)"
    using c by auto
  from value_compare_trans [OF c'] assms(2,3) show ?thesis
    unfolding ab bd ad by auto
qed

text \<open>The values of a key in two or three documents of a sortable list.\<close>

lemma comparable_values_set:
  "comparable_values vs \<Longrightarrow> a \<in> set vs \<Longrightarrow> b \<in> set vs \<Longrightarrow> d \<in> set vs \<Longrightarrow>
   (is_string a \<and> is_string b \<and> is_string d)
   \<or> (number_of a \<noteq> None \<and> number_of b \<noteq> None \<and> number_of d \<noteq> None)
   \<or> (a = JUndefined \<and> b = JUndefined \<and> d = JUndefined)"
  by (auto simp: comparable_values_def list_all_iff)

lemma sortable_Cons:
  "sortable ((f, direction) # keys) docs
     = (comparable_values (map (\<lambda>d. getFieldValue d f) docs) \<and> sortable keys docs)"
  by (simp add: sortable_def)

lemma compare_docs_lexicographic:
  assumes "sortable keys docs" and "a \<in> set docs" and "b \<in> set docs"
  shows "compare_docs rt keys a b = lexicographic keys a b"
  using assms(1)
proof (induction keys)
  case Nil
  then show ?case by simp
next
  case (Cons key keys)
  obtain f direction where key: "key = (f, direction)" by (cases key)
  have c: "comparable_values (map (\<lambda>d. getFieldValue d f) docs)" and s: "sortable keys docs"
    using Cons.prems by (simp_all add: key sortable_Cons)
  have "(is_string (getFieldValue a f) \<and> is_string (getFieldValue b f))
        \<or> (number_of (getFieldValue a f) \<noteq> None \<and> number_of (getFieldValue b f) \<noteq> None)
        \<or> (getFieldValue a f = JUndefined \<and> getFieldValue b f = JUndefined)"
    using comparable_values_set [OF c, of "getFieldValue a f" "getFieldValue b f" "getFieldValue b f"]
      assms(2,3) by auto
  from comparison_value_compare [OF this, of rt] Cons.IH [OF s]
  show ?case
    by (simp add: key Let_def strict_eq_def)
qed

lemma lexicographic_antisym:
  assumes "sortable keys docs" and "a \<in> set docs" and "b \<in> set docs"
  shows "lexicographic keys a b = - lexicographic keys b a"
  using assms(1)
proof (induction keys)
  case Nil
  then show ?case by simp
next
  case (Cons key keys)
  obtain f direction where key: "key = (f, direction)" by (cases key)
  have c: "comparable_values (map (\<lambda>d. getFieldValue d f) docs)" and s: "sortable keys docs"
    using Cons.prems by (simp_all add: key sortable_Cons)
  have "(is_string (getFieldValue a f) \<and> is_string (getFieldValue b f))
        \<or> (number_of (getFieldValue a f) \<noteq> None \<and> number_of (getFieldValue b f) \<noteq> None)
        \<or> (getFieldValue a f = JUndefined \<and> getFieldValue b f = JUndefined)"
    using comparable_values_set [OF c, of "getFieldValue a f" "getFieldValue b f" "getFieldValue b f"]
      assms(2,3) by auto
  from value_compare_antisym [OF this] Cons.IH [OF s]
  show ?case
    by (simp add: key Let_def)
qed

lemma lexicographic_trans:
  assumes "sortable keys docs" and "a \<in> set docs" and "b \<in> set docs" and "d \<in> set docs"
    and "lexicographic keys a b \<le> 0" and "lexicographic keys b d \<le> 0"
  shows "lexicographic keys a d \<le> 0"
  using assms(1,5,6)
proof (induction keys)
  case Nil
  then show ?case by simp
next
  case (Cons key keys)
  obtain f direction where key: "key = (f, direction)" by (cases key)
  have c: "comparable_values (map (\<lambda>d. getFieldValue d f) docs)" and s: "sortable keys docs"
    using Cons.prems by (simp_all add: key sortable_Cons)
  let ?a = "getFieldValue a f" and ?b = "getFieldValue b f" and ?d = "getFieldValue d f"
  have v: "(is_string ?a \<and> is_string ?b \<and> is_string ?d)
           \<or> (number_of ?a \<noteq> None \<and> number_of ?b \<noteq> None \<and> number_of ?d \<noteq> None)
           \<or> (?a = JUndefined \<and> ?b = JUndefined \<and> ?d = JUndefined)"
    using comparable_values_set [OF c, of ?a ?b ?d] assms(2,3,4) by auto
  show ?case
  proof (cases "direction = JNum (- 1)")
    case True
    have ab: "0 \<le> value_compare ?a ?b" and bd: "0 \<le> value_compare ?b ?d"
      using Cons.prems(2,3) True by (auto simp: key Let_def split: if_splits)
    from value_compare_trans_ge [OF v ab bd]
    have ad: "0 \<le> value_compare ?a ?d"
      and z: "value_compare ?a ?d = 0 \<Longrightarrow> value_compare ?a ?b = 0 \<and> value_compare ?b ?d = 0"
      by auto
    show ?thesis
    proof (cases "value_compare ?a ?d = 0")
      case z0: True
      then have "value_compare ?a ?b = 0" "value_compare ?b ?d = 0" using z by auto
      then have "lexicographic keys a b \<le> 0" "lexicographic keys b d \<le> 0"
        using Cons.prems(2,3) by (auto simp: key Let_def split: if_splits)
      then show ?thesis using Cons.IH [OF s] z0 by (simp add: key Let_def)
    next
      case False
      then show ?thesis using ad True by (simp add: key Let_def)
    qed
  next
    case False
    have ab: "value_compare ?a ?b \<le> 0" and bd: "value_compare ?b ?d \<le> 0"
      using Cons.prems(2,3) False by (auto simp: key Let_def split: if_splits)
    from value_compare_trans [OF v ab bd]
    have ad: "value_compare ?a ?d \<le> 0"
      and z: "value_compare ?a ?d = 0 \<Longrightarrow> value_compare ?a ?b = 0 \<and> value_compare ?b ?d = 0"
      by auto
    show ?thesis
    proof (cases "value_compare ?a ?d = 0")
      case z0: True
      then have "value_compare ?a ?b = 0" "value_compare ?b ?d = 0" using z by auto
      then have "lexicographic keys a b \<le> 0" "lexicographic keys b d \<le> 0"
        using Cons.prems(2,3) by (auto simp: key Let_def split: if_splits)
      then show ?thesis using Cons.IH [OF s] z0 by (simp add: key Let_def)
    next
      case nz: False
      then show ?thesis using ad False by (simp add: key Let_def)
    qed
  qed
qed

lemma consistent_comparatorI:
  assumes antisym: "\<And>a b. a \<in> set xs \<Longrightarrow> b \<in> set xs \<Longrightarrow> cmp a b = - cmp b a"
    and trans: "\<And>a b d. a \<in> set xs \<Longrightarrow> b \<in> set xs \<Longrightarrow> d \<in> set xs \<Longrightarrow> cmp a b \<le> 0
                  \<Longrightarrow> cmp b d \<le> 0 \<Longrightarrow> cmp a d \<le> (0::int)"
  shows "consistent_comparator cmp xs"
proof -
  have refl: "cmp a a = 0" if "a \<in> set xs" for a
    using antisym [OF that that] by simp
  have sym: "cmp b a = 0" if "a \<in> set xs" "b \<in> set xs" "cmp a b = 0" for a b
    using antisym [OF that(2) that(1)] that(3) by simp
  have eq: "cmp a c = 0"
    if "a \<in> set xs" "b \<in> set xs" "c \<in> set xs" "cmp a b = 0" "cmp b c = 0" for a b c
  proof -
    have "cmp a c \<le> 0" using trans [OF that(1,2,3)] that(4,5) by simp
    moreover have "cmp c a \<le> 0"
      using trans [OF that(3,2,1)] sym [OF that(1,2,4)] sym [OF that(2,3,5)] by simp
    ultimately show ?thesis using antisym [OF that(1,3)] by simp
  qed
  have lt: "cmp a c < 0"
    if "a \<in> set xs" "b \<in> set xs" "c \<in> set xs" "cmp a b < 0" "cmp b c < 0" for a b c
  proof -
    have le: "cmp a c \<le> 0" using trans [OF that(1,2,3)] that(4,5) by simp
    have "cmp a c \<noteq> 0"
    proof
      assume "cmp a c = 0"
      then have "cmp c a \<le> 0" using antisym [OF that(3,1)] by simp
      then have "cmp c b \<le> 0" using trans [OF that(3,1,2)] that(4) by simp
      then show False using antisym [OF that(2,3)] that(5) by simp
    qed
    then show ?thesis using le by simp
  qed
  have gt: "cmp a c > 0"
    if "a \<in> set xs" "b \<in> set xs" "c \<in> set xs" "cmp a b > 0" "cmp b c > 0" for a b c
  proof -
    have "cmp c b < 0" "cmp b a < 0"
      using antisym [OF that(3,2)] antisym [OF that(2,1)] that(4,5) by simp_all
    from lt [OF that(3,2,1) this] show ?thesis using antisym [OF that(1,3)] by simp
  qed
  show ?thesis
    unfolding consistent_comparator_def list_all_iff
    using refl sym eq lt gt by blast
qed

lemma sortable_consistent:
  assumes "sortable keys docs"
  shows "consistent_comparator (compare_docs rt keys) docs"
proof (rule consistent_comparatorI)
  fix a b
  assume "a \<in> set docs" "b \<in> set docs"
  then show "compare_docs rt keys a b = - compare_docs rt keys b a"
    using lexicographic_antisym [OF assms, of a b]
      compare_docs_lexicographic [OF assms, of a b rt] compare_docs_lexicographic [OF assms, of b a rt]
    by simp
next
  fix a b d
  assume "a \<in> set docs" "b \<in> set docs" "d \<in> set docs"
    "compare_docs rt keys a b \<le> 0" "compare_docs rt keys b d \<le> 0"
  then show "compare_docs rt keys a d \<le> 0"
    using lexicographic_trans [OF assms, of a b d]
      compare_docs_lexicographic [OF assms, of a b rt] compare_docs_lexicographic [OF assms, of b d rt]
      compare_docs_lexicographic [OF assms, of a d rt]
    by simp
qed

lemma consistent_comparatorD:
  assumes c: "consistent_comparator cmp xs" and a: "a \<in> set xs" and b: "b \<in> set xs"
  shows "cmp a a = 0" and "cmp a b = 0 \<Longrightarrow> cmp b a = 0" and "cmp a b < 0 \<Longrightarrow> 0 < cmp b a"
    and "0 < cmp a b \<Longrightarrow> cmp b a < 0"
proof -
  have refl: "cmp x x = 0" if "x \<in> set xs" for x
    using c that unfolding consistent_comparator_def list_all_iff by blast
  have sym: "cmp y x = 0" if "x \<in> set xs" "y \<in> set xs" "cmp x y = 0" for x y
    using c that unfolding consistent_comparator_def list_all_iff by blast
  have lt: "cmp x z < 0"
    if "x \<in> set xs" "y \<in> set xs" "z \<in> set xs" "cmp x y < 0" "cmp y z < 0" for x y z
    using c that unfolding consistent_comparator_def list_all_iff by blast
  have gt: "0 < cmp x z"
    if "x \<in> set xs" "y \<in> set xs" "z \<in> set xs" "0 < cmp x y" "0 < cmp y z" for x y z
    using c that unfolding consistent_comparator_def list_all_iff by blast
  show "cmp a a = 0" by (rule refl [OF a])
  show "cmp b a = 0" if "cmp a b = 0" by (rule sym [OF a b that])
  show "0 < cmp b a" if l: "cmp a b < 0"
  proof (rule ccontr)
    assume "\<not> 0 < cmp b a"
    then consider "cmp b a = 0" | "cmp b a < 0" by linarith
    then show False
    proof cases
      case 1
      then show ?thesis using sym [OF b a] l by simp
    next
      case 2
      then show ?thesis using lt [OF a b a l] refl [OF a] by simp
    qed
  qed
  show "cmp b a < 0" if g: "0 < cmp a b"
  proof (rule ccontr)
    assume "\<not> cmp b a < 0"
    then consider "cmp b a = 0" | "0 < cmp b a" by linarith
    then show False
    proof cases
      case 1
      then show ?thesis using sym [OF b a] g by simp
    next
      case 2
      then show ?thesis using gt [OF a b a g] refl [OF a] by simp
    qed
  qed
qed

lemma consistent_comparator_trans:
  assumes c: "consistent_comparator cmp xs"
    and a: "a \<in> set xs" and b: "b \<in> set xs" and d: "d \<in> set xs"
    and ab: "cmp a b \<le> 0" and bd: "cmp b d \<le> 0"
  shows "cmp a d \<le> 0"
proof (rule ccontr)
  assume "\<not> cmp a d \<le> 0"
  then have ad: "0 < cmp a d" by simp
  then have da: "cmp d a < 0" using consistent_comparatorD(4) [OF c a d] by simp
  have eq: "cmp x z = 0"
    if "x \<in> set xs" "y \<in> set xs" "z \<in> set xs" "cmp x y = 0" "cmp y z = 0" for x y z
    using c that unfolding consistent_comparator_def list_all_iff by blast
  have lt: "cmp x z < 0"
    if "x \<in> set xs" "y \<in> set xs" "z \<in> set xs" "cmp x y < 0" "cmp y z < 0" for x y z
    using c that unfolding consistent_comparator_def list_all_iff by blast
  consider "cmp a b < 0" "cmp b d < 0" | "cmp a b = 0" "cmp b d = 0"
    | "cmp a b = 0" "cmp b d < 0" | "cmp a b < 0" "cmp b d = 0"
    using ab bd by linarith
  then show False
  proof cases
    case 1
    then show ?thesis using lt [OF a b d] ad by simp
  next
    case 2
    then show ?thesis using eq [OF a b d] ad by simp
  next
    case 3
    have "cmp b a < 0" using lt [OF b d a 3(2) da] .
    then show ?thesis using consistent_comparatorD(2) [OF c a b 3(1)] by simp
  next
    case 4
    have "cmp d b < 0" using lt [OF d a b da 4(1)] .
    then show ?thesis using consistent_comparatorD(2) [OF c b d 4(2)] by simp
  qed
qed

lemma mset_insert_sorted: "mset (insert_sorted cmp x ys) = add_mset x (mset ys)"
  by (induction ys) simp_all

lemma mset_stable_sort: "mset (stable_sort cmp xs) = mset xs"
  by (induction xs) (simp_all add: stable_sort_def mset_insert_sorted)

text \<open>The insertion sort sorts as the language requires, whatever the comparator and the
  list.\<close>

lemma stable_sort_in_order:
  assumes c: "consistent_comparator cmp xs"
  shows "in_sort_order cmp xs (stable_sort cmp xs)"
proof -
  have total: "cmp b a \<le> 0" if "a \<in> set xs" "b \<in> set xs" "\<not> cmp a b \<le> 0" for a b
    using consistent_comparatorD(4) [OF c that(1,2)] that(3) by simp
  have trans: "cmp a d \<le> 0"
    if "a \<in> set xs" "b \<in> set xs" "d \<in> set xs" "cmp a b \<le> 0" "cmp b d \<le> 0" for a b d
    using consistent_comparator_trans [OF c that] .
  have sorted: "sorted_wrt (\<lambda>a b. cmp a b \<le> 0) (stable_sort cmp xs)"
    by (rule sorted_stable_sort [of "set xs" cmp, OF total trans]) auto
  have "sorted_wrt (\<lambda>a b. \<not> cmp b a < 0) (stable_sort cmp xs)"
  proof (rule sorted_wrt_mono_rel [OF _ sorted])
    fix x y
    assume "x \<in> set (stable_sort cmp xs)" "y \<in> set (stable_sort cmp xs)" "cmp x y \<le> 0"
    then show "\<not> cmp y x < 0"
      using consistent_comparatorD(3) [OF c, of y x] by (auto simp: set_stable_sort)
  qed
  then show ?thesis by (simp add: in_sort_order_def mset_stable_sort)
qed

lemma sample_sort_conforms: "sort_conforms sample_runtime cmp xs"
  by (simp add: sort_conforms_def sample_runtime_def stable_sort_in_order)

lemma sortDocuments_in_order:
  assumes "sortable (object_entries sort_spec) docs"
    and "sort_conforms rt (compare_docs rt (object_entries sort_spec)) docs"
  shows "in_sort_order (compare_docs rt (object_entries sort_spec)) docs
           (sortDocuments rt docs sort_spec)"
  using assms(2) sortable_consistent [OF assms(1), of rt]
  by (simp add: sort_conforms_def sortDocuments_def)

lemma set_sortDocuments:
  assumes "sortable (object_entries sort_spec) docs"
    and "sort_conforms rt (compare_docs rt (object_entries sort_spec)) docs"
  shows "set (sortDocuments rt docs sort_spec) = set docs"
  using sortDocuments_in_order [OF assms] mset_eq_setD by (auto simp: in_sort_order_def)

lemma sortDocuments_monotone:
  assumes "sortable (object_entries sort_spec) docs"
    and "sort_conforms rt (compare_docs rt (object_entries sort_spec)) docs"
  shows "monotone_under (object_entries sort_spec) (sortDocuments rt docs sort_spec)"
proof -
  let ?keys = "object_entries sort_spec"
  let ?cmp = "compare_docs rt ?keys"
  let ?sorted = "sortDocuments rt docs sort_spec"
  have eq: "\<And>a b. a \<in> set docs \<Longrightarrow> b \<in> set docs \<Longrightarrow> ?cmp a b = lexicographic ?keys a b"
    by (rule compare_docs_lexicographic [OF assms(1)])
  have sorted: "sorted_wrt (\<lambda>a b. \<not> ?cmp b a < 0) ?sorted"
    using sortDocuments_in_order [OF assms] by (simp add: in_sort_order_def)
  have "sorted_wrt (\<lambda>a b. lexicographic ?keys a b \<le> 0) ?sorted"
  proof (rule sorted_wrt_mono_rel [OF _ sorted])
    fix x y
    assume "x \<in> set ?sorted" "y \<in> set ?sorted" "\<not> ?cmp y x < 0"
    then have x: "x \<in> set docs" and y: "y \<in> set docs" and c: "\<not> ?cmp y x < 0"
      by (simp_all add: set_sortDocuments [OF assms])
    show "lexicographic ?keys x y \<le> 0"
      using lexicographic_antisym [OF assms(1) x y] eq [OF y x] c by simp
  qed
  then show ?thesis by (simp add: monotone_under_def)
qed
subsection \<open>find with a sort\<close>

lemma split_dot_parts: "split_dot p \<noteq> []"
  by (induction p) (auto split: list.splits)

lemma getFieldValue_object:
  "getFieldValue (JObj kvs) p = walk_path (lookup kvs (hd (split_dot p))) (tl (split_dot p))"
  using split_dot_parts [of p] by (cases "split_dot p") (simp_all add: getFieldValue_def)

lemma lookup_decrypt_fields_other:
  "decrypt_fields lb key schema kvs = Inr kvs' \<Longrightarrow>
   \<not> list_ex (\<lambda>field. fst field = f \<and> fd_encrypted (snd field)) schema \<Longrightarrow>
   lookup kvs' f = lookup kvs f"
proof (induction schema arbitrary: kvs)
  case Nil
  then show ?case by simp
next
  case (Cons field schema)
  obtain g fd where field: "field = (g, fd)" by (cases field)
  have rest: "\<not> list_ex (\<lambda>field. fst field = f \<and> fd_encrypted (snd field)) schema"
    using Cons.prems(2) by simp
  show ?case
  proof (cases "fd_encrypted fd \<and> lookup kvs g \<noteq> JUndefined")
    case True
    then have ne: "g \<noteq> f" using Cons.prems(2) by (auto simp: field)
    from Cons.prems(1) True obtain v where
      "decrypt_fields lb key schema (set_prop kvs g v) = Inr kvs'"
      by (auto simp: field split: sum.splits)
    from Cons.IH [OF this rest] ne show ?thesis by (simp add: lookup_set_prop)
  next
    case False
    then have "decrypt_fields lb key schema kvs = Inr kvs'"
      using Cons.prems(1) by (auto simp: field)
    from Cons.IH [OF this rest] show ?thesis .
  qed
qed

lemma processed_field_value:
  assumes "processDocumentFromStorage lb key d schema = Inr r" and "is_plain_object d"
    and "\<not> list_ex (\<lambda>field. fst field = hd (split_dot p) \<and> fd_encrypted (snd field)) schema"
  shows "getFieldValue r p = getFieldValue d p"
proof -
  obtain kvs where d: "d = JObj kvs" using assms(2) by (cases d) auto
  from assms(1) obtain kvs' where r: "r = JObj kvs'"
    and dec: "decrypt_fields lb key schema kvs = Inr kvs'"
    by (auto simp: processDocumentFromStorage_def d split: sum.splits)
  show ?thesis
    unfolding d r getFieldValue_object
    using lookup_decrypt_fields_other [OF dec assms(3)] by simp
qed

lemma processed_lexicographic:
  assumes "processDocumentFromStorage lb key a schema = Inr a'" and "is_plain_object a"
    and "processDocumentFromStorage lb key b schema = Inr b'" and "is_plain_object b"
    and "sorts_plaintext schema keys"
  shows "lexicographic keys a' b' = lexicographic keys a b"
  using assms(5)
proof (induction keys)
  case Nil
  then show ?case by simp
next
  case (Cons k keys)
  obtain p direction where k: "k = (p, direction)" by (cases k)
  have here: "\<not> list_ex (\<lambda>field. fst field = hd (split_dot p) \<and> fd_encrypted (snd field)) schema"
    and rest: "sorts_plaintext schema keys"
    using Cons.prems by (simp_all add: sorts_plaintext_def k)
  show ?case
    using processed_field_value [OF assms(1,2) here] processed_field_value [OF assms(3,4) here]
      Cons.IH [OF rest]
    by (simp add: k Let_def cong: if_cong)
qed

lemma process_all_each:
  "process_all lb key docs schema = Inr result \<Longrightarrow>
   list_all2 (\<lambda>d r. processDocumentFromStorage lb key d schema = Inr r) docs result"
proof (induction docs arbitrary: result)
  case Nil
  then show ?case by simp
next
  case (Cons d docs)
  then show ?case by (auto split: sum.splits)
qed

lemma list_all2_right: "list_all2 P xs ys \<Longrightarrow> y \<in> set ys \<Longrightarrow> \<exists>x\<in>set xs. P x y"
  by (induction rule: list_all2_induct) auto

lemma monotone_under_processed:
  assumes "list_all2 (\<lambda>d r. processDocumentFromStorage lb key d schema = Inr r) docs result"
    and "list_all is_plain_object docs"
    and "sorts_plaintext schema keys"
    and "monotone_under keys docs"
  shows "monotone_under keys result"
  using assms(1,2,4)
proof (induction docs result rule: list_all2_induct)
  case Nil
  then show ?case by (simp add: monotone_under_def)
next
  case (Cons d docs r result)
  have tl: "monotone_under keys result"
    using Cons by (simp add: monotone_under_def)
  have "lexicographic keys r r' \<le> 0" if "r' \<in> set result" for r'
  proof -
    from list_all2_right [OF Cons.hyps(2) that] obtain d' where d': "d' \<in> set docs"
      and p: "processDocumentFromStorage lb key d' schema = Inr r'"
      by blast
    have "is_plain_object d" "is_plain_object d'"
      using Cons.prems(1) d' by (auto simp: list_all_iff)
    from processed_lexicographic [OF Cons.hyps(1) this(1) p this(2) assms(3)]
    show ?thesis using Cons.prems(2) d' by (simp add: monotone_under_def)
  qed
  then show ?case using tl by (simp add: monotone_under_def)
qed

lemma filterDocuments_subset:
  "filterDocuments rt lb key docs query schema = Inr filtered \<Longrightarrow> set filtered \<subseteq> set docs"
proof (induction docs arbitrary: filtered)
  case Nil
  then show ?case by simp
next
  case (Cons doc docs)
  then show ?case by (auto split: sum.splits if_splits)
qed

lemma monotone_under_slices:
  "monotone_under keys docs \<Longrightarrow> monotone_under keys (slice_from rt a docs)"
  "monotone_under keys docs \<Longrightarrow> monotone_under keys (slice_to rt b docs)"
  by (simp_all add: monotone_under_def slice_from_def slice_to_def)

lemma set_slices:
  "set (slice_from rt a docs) \<subseteq> set docs" "set (slice_to rt b docs) \<subseteq> set docs"
  by (auto simp: slice_from_def slice_to_def dest: in_set_dropD in_set_takeD)

lemma set_optional_slices:
  "set (if c then slice_from rt a docs else docs) \<subseteq> set docs"
  "set (if c then slice_to rt b docs else docs) \<subseteq> set docs"
  using set_slices [of rt _ docs] by auto

lemma find_sorted:
  assumes r: "find_documents rt lb db c query options = Inr result"
    and col: "getCollection db c = Inr col"
    and srt: "truthy (opt_sort options)"
    and keys: "sorts_plaintext (c_schema col) (object_entries (opt_sort options))"
    and objs: "list_all is_plain_object (selected rt lb db c query)"
    and sortable: "sortable (object_entries (opt_sort options)) (selected rt lb db c query)"
    and conf: "sort_conforms rt (compare_docs rt (object_entries (opt_sort options)))
                 (selected rt lb db c query)"
  shows "monotone_under (object_entries (opt_sort options)) result"
proof -
  let ?docs = "map snd (c_documents col)"
  let ?keys = "object_entries (opt_sort options)"
  let ?q = "if query = JUndefined then JObj [] else query"
  from r col obtain filtered where
    f: "select_documents rt lb (encryptionKey (storage db)) ?docs ?q (c_schema col) = Inr filtered"
    by (auto simp: find_documents_def Let_def split: if_splits sum.splits)
  then have sel: "selected rt lb db c query = filtered"
    by (simp add: selected_def col)
  let ?sorted = "sortDocuments rt filtered (opt_sort options)"
  let ?skipped = "if truthy (opt_skip options) then slice_from rt (opt_skip options) ?sorted
                  else ?sorted"
  let ?limited = "if truthy (opt_limit options) then slice_to rt (opt_limit options) ?skipped
                  else ?skipped"
  from r col f srt have res: "process_all lb (encryptionKey (storage db)) ?limited (c_schema col)
                              = Inr result"
    by (auto simp: find_documents_def Let_def split: if_splits sum.splits)
  have s: "sortable ?keys filtered"
    and cf: "sort_conforms rt (compare_docs rt ?keys) filtered"
    using sortable conf by (simp_all add: sel)
  have "monotone_under ?keys ?sorted"
    by (rule sortDocuments_monotone [OF s cf])
  then have m: "monotone_under ?keys ?limited"
    by (simp add: monotone_under_slices)
  have "set ?skipped \<subseteq> set ?sorted"
    by (rule set_optional_slices)
  moreover have "set ?limited \<subseteq> set ?skipped"
    by (rule set_optional_slices)
  ultimately have "set ?limited \<subseteq> set filtered"
    unfolding set_sortDocuments [OF s cf] by blast
  then have "list_all is_plain_object ?limited"
    using objs unfolding sel list_all_iff by blast
  from monotone_under_processed [OF process_all_each [OF res] this keys m]
  show ?thesis .
qed

lemma split_dot_createdAt: "split_dot ''createdAt'' = [''createdAt'']"
  by code_simp

subsection \<open>The ordered operators\<close>

lemma number_or_nan_cases:
  "number_or_nan v = Some r \<Longrightarrow> (v = JNaN \<and> r = None) \<or> (\<exists>x. number_of v = Some x \<and> r = Some x)"
  by (auto simp: number_or_nan_def split: if_splits)

lemma relational_nan_left:
  "number_or_nan w \<noteq> None \<Longrightarrow> relational rt JNaN w = None"
  by (cases w) (simp_all add: relational_def number_or_nan_def)

lemma relational_nan_right:
  "number_or_nan v \<noteq> None \<Longrightarrow> relational rt v JNaN = None"
  by (cases v) (simp_all add: relational_def number_or_nan_def)

lemma relational_numeric:
  assumes "number_or_nan v = Some r" and "number_or_nan w = Some r'"
  shows "relational rt v w = (case r of None \<Rightarrow> None
                              | Some x \<Rightarrow> (case r' of None \<Rightarrow> None | Some y \<Rightarrow> Some (x < y)))"
  using number_or_nan_cases [OF assms(1)] number_or_nan_cases [OF assms(2)]
proof (elim disjE conjE exE)
  assume "v = JNaN" "r = None"
  then show ?thesis using relational_nan_left [of w rt] assms(2) by simp
next
  assume "v = JNaN" "r = None"
  then show ?thesis using relational_nan_left [of w rt] assms(2) by simp
next
  fix x assume "w = JNaN" "r' = None" "number_of v = Some x" "r = Some x"
  then show ?thesis using relational_nan_right [of v rt] assms(1) by simp
next
  fix x y assume "number_of v = Some x" "r = Some x" "number_of w = Some y" "r' = Some y"
  then show ?thesis using relational_number_of [of v x w y rt] by simp
qed

lemma ordered_holds_numeric:
  assumes "number_or_nan v = Some r" and "number_or_nan w = Some r'"
  shows "ordered_holds op v w
           = (case r of None \<Rightarrow> True
              | Some x \<Rightarrow> (case r' of None \<Rightarrow> True | Some y \<Rightarrow> in_relation op (x < y) (y < x)))"
proof -
  have "\<not> is_string v" using assms(1) by (cases v) (simp_all add: number_or_nan_def)
  then show ?thesis
    unfolding ordered_holds_def assms
    by (cases v; cases r; cases r') simp_all
qed

lemma ordered_step:
  assumes "ordered_operator op" and "comparable v w"
  shows "matchesOperator rt v ((op, w) # rest)
           = (if ordered_holds op v w then matchesOperator rt v rest else Inr False)"
proof (cases "is_string v \<and> is_string w")
  case True
  then obtain s t where "v = JStr s" "w = JStr t" by (auto simp: is_string_iff)
  then show ?thesis
    using assms(1)
    by (auto simp: ordered_operator_def ordered_holds_def in_relation_def relational_strings
        js_le_def js_lt_def js_ge_def js_gt_def)
next
  case False
  then obtain r r' where n: "number_or_nan v = Some r" "number_or_nan w = Some r'"
    using assms(2) by (auto simp: comparable_def)
  show ?thesis
    using assms(1)
    unfolding ordered_holds_numeric [OF n]
    by (cases r; cases r')
      (auto simp: ordered_operator_def in_relation_def relational_numeric [OF n]
         relational_numeric [OF n(2) n(1)] js_le_def js_lt_def js_ge_def js_gt_def)
qed

lemma matchesOperator_ordered:
  "list_all (\<lambda>t. ordered_operator (fst t) \<and> comparable v (snd t)) ops \<Longrightarrow>
   matchesOperator rt v ops = Inr (list_all (\<lambda>t. ordered_holds (fst t) v (snd t)) ops)"
proof (induction ops)
  case Nil
  then show ?case by simp
next
  case (Cons t ops)
  obtain op w where t: "t = (op, w)" by (cases t)
  have "ordered_operator op" "comparable v w" using Cons.prems by (simp_all add: t)
  from ordered_step [OF this, of rt ops] Cons show ?case by (simp add: t)
qed

lemma matchesOperator_rest:
  "matchesOperator rt v (t # ops) = Inr True \<Longrightarrow> matchesOperator rt v ops = Inr True"
  by (cases t) (auto split: if_splits sum.splits)

lemma matchesOperator_true:
  "matchesOperator rt v ops = Inr True \<Longrightarrow>
   list_all (\<lambda>t. ordered_operator (fst t) \<and> comparable v (snd t)
                   \<longrightarrow> ordered_holds (fst t) v (snd t)) ops"
proof (induction ops)
  case Nil
  then show ?case by simp
next
  case (Cons t ops)
  obtain op w where t: "t = (op, w)" by (cases t)
  have rest: "matchesOperator rt v ops = Inr True"
    using Cons.prems by (rule matchesOperator_rest)
  have "ordered_holds op v w" if "ordered_operator op" "comparable v w"
    using ordered_step [OF that, of rt ops] Cons.prems by (simp add: t split: if_splits)
  then show ?case using Cons.IH [OF rest] by (simp add: t)
qed

lemma matchesEntries_ordered:
  assumes "list_all (\<lambda>entry. is_object (snd entry)
                       \<and> list_all (\<lambda>t. ordered_operator (fst t)) (object_entries (snd entry)))
             entries"
    and "list_all (\<lambda>t. comparable (fst (snd t)) (snd (snd t))) (ordered_tests d (JObj entries))"
  shows "matchesEntries rt d entries
           = Inr (list_all (\<lambda>t. ordered_holds (fst t) (fst (snd t)) (snd (snd t)))
                    (ordered_tests d (JObj entries)))"
  using assms
proof (induction entries)
  case Nil
  then show ?case by (simp add: ordered_tests_def)
next
  case (Cons entry entries)
  obtain f operand where entry: "entry = (f, operand)" by (cases entry)
  let ?v = "getFieldValue d f"
  have obj: "is_object operand"
    and ops: "list_all (\<lambda>t. ordered_operator (fst t)) (object_entries operand)"
    using Cons.prems(1) by (simp_all add: entry)
  have all: "filter (\<lambda>t. ordered_operator (fst t)) (object_entries operand) = object_entries operand"
    using ops by (simp add: list_all_iff)
  have tests: "ordered_tests d (JObj (entry # entries))
               = map (\<lambda>t. (fst t, ?v, snd t)) (object_entries operand)
                 @ ordered_tests d (JObj entries)"
    by (simp add: ordered_tests_def entry obj all)
  have cmp: "list_all (\<lambda>t. ordered_operator (fst t) \<and> comparable ?v (snd t)) (object_entries operand)"
    unfolding list_all_iff
  proof
    fix t
    assume t: "t \<in> set (object_entries operand)"
    then have "(fst t, ?v, snd t) \<in> set (ordered_tests d (JObj (entry # entries)))"
      unfolding tests by simp
    then have "comparable ?v (snd t)"
      using Cons.prems(2) unfolding list_all_iff by (metis fst_conv snd_conv)
    moreover have "ordered_operator (fst t)" using ops t by (simp add: list_all_iff)
    ultimately show "ordered_operator (fst t) \<and> comparable ?v (snd t)" by simp
  qed
  have rest: "matchesEntries rt d entries
              = Inr (list_all (\<lambda>t. ordered_holds (fst t) (fst (snd t)) (snd (snd t)))
                       (ordered_tests d (JObj entries)))"
    using Cons.IH Cons.prems unfolding tests by simp
  have "list_all (\<lambda>t. ordered_holds (fst t) (fst (snd t)) (snd (snd t)))
          (map (\<lambda>t. (fst t, ?v, snd t)) (object_entries operand))
        = list_all (\<lambda>t. ordered_holds (fst t) ?v (snd t)) (object_entries operand)"
    by (simp add: list.pred_map comp_def)
  then show ?case
    unfolding tests
    using matchesOperator_ordered [OF cmp, of rt] rest
    by (simp add: entry obj)
qed

lemma matchesEntries_true:
  "matchesEntries rt d entries = Inr True \<Longrightarrow>
   list_all (\<lambda>t. comparable (fst (snd t)) (snd (snd t))
                   \<longrightarrow> ordered_holds (fst t) (fst (snd t)) (snd (snd t)))
     (ordered_tests d (JObj entries))"
proof (induction entries)
  case Nil
  then show ?case by (simp add: ordered_tests_def)
next
  case (Cons entry entries)
  obtain f operand where entry: "entry = (f, operand)" by (cases entry)
  let ?v = "getFieldValue d f"
  have tailm: "matchesEntries rt d entries = Inr True"
    using Cons.prems by (auto simp: entry Let_def split: if_splits sum.splits)
  have tests: "ordered_tests d (JObj (entry # entries))
               = (if is_object operand
                  then map (\<lambda>t. (fst t, ?v, snd t))
                         (filter (\<lambda>t. ordered_operator (fst t)) (object_entries operand))
                  else [])
                 @ ordered_tests d (JObj entries)"
    by (simp add: ordered_tests_def entry)
  have head: "list_all (\<lambda>t. ordered_operator (fst t) \<and> comparable ?v (snd t)
                              \<longrightarrow> ordered_holds (fst t) ?v (snd t)) (object_entries operand)"
    if "is_object operand"
  proof -
    have "matchesOperator rt ?v (object_entries operand) = Inr True"
      using Cons.prems that by (auto simp: entry Let_def split: if_splits sum.splits)
    then show ?thesis by (rule matchesOperator_true)
  qed
  show ?case
    unfolding tests list_all_iff
  proof
    fix t
    assume "t \<in> set ((if is_object operand
                        then map (\<lambda>t. (fst t, ?v, snd t))
                               (filter (\<lambda>t. ordered_operator (fst t)) (object_entries operand))
                        else [])
                       @ ordered_tests d (JObj entries))"
    then consider
      (here) u where "is_object operand" "u \<in> set (object_entries operand)"
        "ordered_operator (fst u)" "t = (fst u, ?v, snd u)"
      | (rest) "t \<in> set (ordered_tests d (JObj entries))"
      by (auto split: if_splits)
    then show "comparable (fst (snd t)) (snd (snd t))
               \<longrightarrow> ordered_holds (fst t) (fst (snd t)) (snd (snd t))"
    proof cases
      case here
      have "ordered_operator (fst u) \<and> comparable ?v (snd u) \<longrightarrow> ordered_holds (fst u) ?v (snd u)"
        using here(2) head [OF here(1)] unfolding list_all_iff by blast
      then show ?thesis using here(3,4) by simp
    next
      case rest
      then show ?thesis using Cons.IH [OF tailm] unfolding list_all_iff by blast
    qed
  qed
qed

lemma ordered_tests_entries:
  "q \<noteq> JUndefined \<Longrightarrow> q \<noteq> JNull \<Longrightarrow> ordered_tests d q = ordered_tests d (JObj (object_entries q))"
  by (simp add: ordered_tests_def)

lemma test_patterns:
  "(\<lambda>(op, v, w). comparable v w \<longrightarrow> ordered_holds op v w)
     = (\<lambda>t. comparable (fst (snd t)) (snd (snd t))
              \<longrightarrow> ordered_holds (fst t) (fst (snd t)) (snd (snd t)))"
  "(\<lambda>(op, v, w). comparable v w) = (\<lambda>t. comparable (fst (snd t)) (snd (snd t)))"
  "(\<lambda>(op, v, w). ordered_holds op v w)
     = (\<lambda>t. ordered_holds (fst t) (fst (snd t)) (snd (snd t)))"
  by (simp_all add: fun_eq_iff)

lemma matchesQuery_ordered:
  "(matchesQuery rt d q = Inr True
      \<longrightarrow> list_all (\<lambda>(op, v, w). comparable v w \<longrightarrow> ordered_holds op v w) (ordered_tests d q))
   \<and> (ordered_query q \<and> list_all (\<lambda>(op, v, w). comparable v w) (ordered_tests d q)
      \<longrightarrow> matchesQuery rt d q
           = Inr (list_all (\<lambda>(op, v, w). ordered_holds op v w) (ordered_tests d q)))"
  unfolding test_patterns
proof (intro conjI impI)
  assume m: "matchesQuery rt d q = Inr True"
  then have q: "q \<noteq> JUndefined" "q \<noteq> JNull" and e: "matchesEntries rt d (object_entries q) = Inr True"
    by (auto simp: matchesQuery_def split: if_splits)
  from matchesEntries_true [OF e]
  show "list_all (\<lambda>t. comparable (fst (snd t)) (snd (snd t))
                        \<longrightarrow> ordered_holds (fst t) (fst (snd t)) (snd (snd t))) (ordered_tests d q)"
    unfolding ordered_tests_entries [OF q, symmetric] .
next
  assume a: "ordered_query q
             \<and> list_all (\<lambda>t. comparable (fst (snd t)) (snd (snd t))) (ordered_tests d q)"
  then have q: "q \<noteq> JUndefined" "q \<noteq> JNull" by (simp_all add: ordered_query_def)
  have 1: "list_all (\<lambda>entry. is_object (snd entry)
                       \<and> list_all (\<lambda>t. ordered_operator (fst t)) (object_entries (snd entry)))
             (object_entries q)"
    using a by (simp add: ordered_query_def)
  have 2: "list_all (\<lambda>t. comparable (fst (snd t)) (snd (snd t)))
             (ordered_tests d (JObj (object_entries q)))"
    using a unfolding ordered_tests_entries [OF q, symmetric] by simp
  from matchesEntries_ordered [OF 1 2, of rt]
  show "matchesQuery rt d q
          = Inr (list_all (\<lambda>t. ordered_holds (fst t) (fst (snd t)) (snd (snd t)))
                   (ordered_tests d q))"
    unfolding ordered_tests_entries [OF q, symmetric]
    using q by (simp add: matchesQuery_def)
qed

subsection \<open>C1: a save parsed again\<close>

text \<open>
  C1, as stated, fails: the operation log of a storage object holds \<open>Date\<close> objects, which
  a save writes as ISO strings; parsing the saved file returns the strings, not the
  dates. With the sample libraries, the storage object after one \<open>setCollection\<close> is
  saved and parsed with the passphrase of the save: the collections and the indexes come
  back, the operation log does not.
\<close>

theorem parse_after_save_changes_log:
  "\<exists>saved fileBuffer loaded.
      saveToFile sample_libs (replicate 16 9) 1700000000001 created_storage = Inr saved
    \<and> disk saved = Some fileBuffer
    \<and> parseVDBFile sample_runtime sample_libs empty_storage fileBuffer ''pw-one'' = Inr loaded
    \<and> s_collections loaded = s_collections created_storage
    \<and> s_indexes loaded = s_indexes created_storage
    \<and> operationLog loaded \<noteq> operationLog created_storage"
proof -
  have "get_prop created_json ''operationLog'' \<noteq> operationLog created_storage"
    by (simp add: created_json_def created_storage_fields)
  then show ?thesis using created_round_trip by metis
qed

text \<open>
  C1, amended: when a save succeeds, the key of the storage object is the one derived
  from the passphrase and its salt, the initialisation vector has 16 bytes, and the
  libraries invert one another on the data of this save (the digest has 64 characters,
  decryption returns the compressed text, decompression returns the text, the JSON
  parser returns the JSON image of the serialized value), then parsing the saved file
  with that passphrase succeeds and loads the JSON image of the persisted state. The
  collections and the indexes loaded are the entries of \<open>Object.fromEntries\<close> of the saved
  maps, each value replaced by its JSON image (a \<open>Date\<close> by its ISO string, NaN by null,
  undefined properties dropped): the same entries as the JSON images of the saved ones,
  enumerated as the properties of an object are, the names that are array indices first,
  in ascending order, and the other names in the order of the saved map. The operation
  log loaded is the JSON image of the saved one.
\<close>

theorem parse_after_save_loads_json_image:
  assumes "saveToFile lb iv t st = Inr st'"
    and "encryptionKey st = pbkdf2 lb password (salt st)"
    and "length iv = 16"
    and "distinct (map fst (s_collections st))" and "distinct (map fst (s_indexes st))"
    and "libs_invert_save lb iv st"
  shows "\<exists>fileBuffer loaded. disk st' = Some fileBuffer
           \<and> parseVDBFile rt lb st0 fileBuffer password = Inr loaded
           \<and> s_collections loaded = json_props (object_entries (fromEntries (s_collections st)))
           \<and> s_indexes loaded = json_props (object_entries (fromEntries (s_indexes st)))
           \<and> mset (s_collections loaded) = mset (json_props (s_collections st))
           \<and> mset (s_indexes loaded) = mset (json_props (s_indexes st))
           \<and> enumeration_ordered (s_collections loaded)
           \<and> enumeration_ordered (s_indexes loaded)
           \<and> plain_names (s_collections loaded) = json_props (plain_names (s_collections st))
           \<and> plain_names (s_indexes loaded) = json_props (plain_names (s_indexes st))
           \<and> operationLog loaded
               = (if truthy (json_value (operationLog st)) then json_value (operationLog st)
                  else JArr [])"
proof -
  from save_then_parse [OF assms(1,2,3,6), of rt st0]
  obtain fileBuffer loaded where r: "disk st' = Some fileBuffer"
    "parseVDBFile rt lb st0 fileBuffer password = Inr loaded"
    "s_collections loaded = json_props (object_entries (fromEntries (s_collections st)))"
    "s_indexes loaded = json_props (object_entries (fromEntries (s_indexes st)))"
    "operationLog loaded
       = (if truthy (json_value (operationLog st)) then json_value (operationLog st) else JArr [])"
    by blast
  show ?thesis
    using r loaded_entries [OF assms(4)] loaded_entries [OF assms(5)] by auto
qed

theorem parse_after_save_loads_json_image_witness:
  "\<exists>saved fileBuffer loaded.
      saveToFile sample_libs (replicate 16 9) 1700000000001 created_storage = Inr saved
    \<and> encryptionKey created_storage = pbkdf2 sample_libs ''pw-one'' (salt created_storage)
    \<and> length (replicate 16 (9 :: 8 word)) = 16
    \<and> distinct (map fst (s_collections created_storage))
    \<and> distinct (map fst (s_indexes created_storage))
    \<and> libs_invert_save sample_libs (replicate 16 9) created_storage
    \<and> disk saved = Some fileBuffer
    \<and> parseVDBFile sample_runtime sample_libs empty_storage fileBuffer ''pw-one'' = Inr loaded
    \<and> mset (s_collections loaded) = mset (json_props (s_collections created_storage))
    \<and> mset (s_indexes loaded) = mset (json_props (s_indexes created_storage))
    \<and> enumeration_ordered (s_collections loaded)
    \<and> enumeration_ordered (s_indexes loaded)
    \<and> plain_names (s_collections loaded) = json_props (plain_names (s_collections created_storage))
    \<and> plain_names (s_indexes loaded) = json_props (plain_names (s_indexes created_storage))
    \<and> operationLog loaded
        = (if truthy (json_value (operationLog created_storage))
           then json_value (operationLog created_storage) else JArr [])"
proof -
  obtain saved where saved:
    "saveToFile sample_libs (replicate 16 9) 1700000000001 created_storage = Inr saved"
    using created_saved by blast
  have iv: "length (replicate 16 (9 :: 8 word)) = 16" by simp
  have d: "distinct (map fst (s_collections created_storage))"
    "distinct (map fst (s_indexes created_storage))"
    by (simp_all add: created_storage_fields)
  from parse_after_save_loads_json_image [OF saved created_key iv d created_invertible,
      of sample_runtime empty_storage]
  show ?thesis using saved created_key iv d created_invertible by blast
qed

subsection \<open>C2: unique fields under update\<close>

text \<open>
  C2: \<open>update\<close> never calls \<open>checkUniqueConstraints\<close>, which \<open>insert\<close> calls. In a
  collection whose schema declares \<open>email\<close> unique, holding \<open>u1\<close> with \<open>a@x\<close> and \<open>u2\<close> with
  \<open>b@x\<close>, the update of \<open>u2\<close> with \<open>{$set: {email: "a@x"}}\<close> succeeds with one document
  matched and modified, and leaves both documents with \<open>a@x\<close>; the insert of a new
  document with \<open>a@x\<close> into the same collection is rejected.
\<close>

theorem update_skips_unique_check:
  "snd (update sample_runtime sample_libs sample_entropy unique_users_db ''users''
          (JObj [(''_id'', JStr ''u2'')]) (JObj [(''$set'', JObj [(''email'', JStr ''a@x'')])])
          JUndefined) = Inr (1, 1)
   \<and> map (\<lambda>doc. (get_prop doc ''_id'', get_prop doc ''email''))
        (documents_of (fst (update sample_runtime sample_libs sample_entropy unique_users_db ''users''
          (JObj [(''_id'', JStr ''u2'')]) (JObj [(''$set'', JObj [(''email'', JStr ''a@x'')])])
          JUndefined)) ''users'')
       = [(JStr ''u1'', JStr ''a@x''), (JStr ''u2'', JStr ''a@x'')]
   \<and> snd (insert_document sample_runtime sample_libs sample_entropy unique_users_db ''users''
            (JObj [(''email'', JStr ''a@x'')])) = Inl (DuplicateUniqueField ''email'')"
proof -
  let ?fd = "(plain_field ''string'')\<lparr>fd_unique := True\<rparr>"
  let ?col = "\<lparr>c_schema = [(''email'', ?fd)],
               c_documents = [(JStr ''u1'', user_doc ''u1'' ''a@x''),
                              (JStr ''u2'', user_doc ''u2'' ''b@x'')],
               c_indexes = JObj []\<rparr>"
  let ?set = "JObj [(''$set'', JObj [(''email'', JStr ''a@x'')])]"
  let ?loop = "update_documents sample_runtime sample_libs sample_entropy ''users'' (c_schema ?col)
                 ?set (\<not> strict_eq JUndefined (JBool False)) (user_doc ''u2'' ''b@x'' # []) 0
                 unique_users_db"
  have col: "getCollection unique_users_db ''users'' = Inr ?col"
    by (simp add: unique_users_db_def users_engine_def getCollection_def)
  have flt: "filterDocuments sample_runtime sample_libs (encryptionKey (storage unique_users_db))
               (map snd (c_documents ?col)) (JObj [(''_id'', JStr ''u2'')]) (c_schema ?col)
             = Inr (user_doc ''u2'' ''b@x'' # [])"
    by code_simp
  have upd: "snd ?loop = Inr 1"
    by code_simp
  have docs: "map (\<lambda>doc. (get_prop doc ''_id'', get_prop doc ''email''))
                (documents_of (fst ?loop) ''users'')
              = [(JStr ''u1'', JStr ''a@x''), (JStr ''u2'', JStr ''a@x'')]"
    by code_simp
  have "(case map_of (collections (fst ?loop)) ''users'' of
              None \<Rightarrow> False
            | Some col \<Rightarrow>
                (case setCollection (storage (fst ?loop)) ''users''
                        (JObj [(''schema'', serializeSchema (c_schema col)),
                               (''documents'', documents_object sample_runtime (c_documents col)),
                               (''indexes'', c_indexes col)]) (now sample_entropy) of
                   Inl e \<Rightarrow> False
                 | Inr st1 \<Rightarrow> sample_savable st1))"
    by code_simp
  then have save: "snd (saveCollection sample_runtime sample_libs sample_entropy (fst ?loop) ''users'')
                   = None"
    by (rule sample_saveCollection_succeeds)
  have ins: "snd (insert_document sample_runtime sample_libs sample_entropy unique_users_db ''users''
            (JObj [(''email'', JStr ''a@x'')])) = Inl (DuplicateUniqueField ''email'')"
    by code_simp
  show ?thesis
    using update_succeeds [OF col flt upd save] ins docs
    by (simp add: documents_of_def)
qed

subsection \<open>C3: insert and the unique index\<close>

text \<open>
  C3: \<open>insert\<close> stores the document in the collection before \<open>updateIndexesOnInsert\<close>
  checks the unique indexes. With a unique index on \<open>email\<close> holding \<open>a@x\<close> and \<open>b@x\<close>, for
  every runtime, all libraries and every storage object, the insert of a document with
  \<open>a@x\<close> throws the duplicate-key error of the index and leaves the collection with three
  documents instead of two.
\<close>

theorem insert_throws_after_storing:
  "snd (insert_document rt lb sample_entropy
          (users_engine (plain_field ''string'') [(''users.email'', email_index True)] st)
          ''users'' (JObj [(''email'', JStr ''a@x'')]))
     = Inl (DuplicateUniqueIndex ''a@x'')
   \<and> documents_of (fst (insert_document rt lb sample_entropy
          (users_engine (plain_field ''string'') [(''users.email'', email_index True)] st)
          ''users'' (JObj [(''email'', JStr ''a@x'')]))) ''users''
     = [user_doc ''u1'' ''a@x'', user_doc ''u2'' ''b@x'',
        JObj [(''email'', JStr ''a@x''), (''_id'', JStr ''lozv3k00_0''),
              (''createdAt'', JDate 1700000000000), (''updatedAt'', JDate 1700000000000)]]
   \<and> documents_of (users_engine (plain_field ''string'') [(''users.email'', email_index True)] st)
        ''users''
     = [user_doc ''u1'' ''a@x'', user_doc ''u2'' ''b@x'']"
proof -
  let ?db = "users_engine (plain_field ''string'') [(''users.email'', email_index True)] st"
  let ?doc = "JObj [(''email'', JStr ''a@x''), (''_id'', JStr ''lozv3k00_0''),
                    (''createdAt'', JDate 1700000000000), (''updatedAt'', JDate 1700000000000)]"
  let ?col = "\<lparr>c_schema = [(''email'', plain_field ''string'')],
               c_documents = [(JStr ''u1'', user_doc ''u1'' ''a@x''),
                              (JStr ''u2'', user_doc ''u2'' ''b@x'')],
               c_indexes = JObj []\<rparr>"
  have names: "array_index ''email'' = None" "array_index ''_id'' = None"
    "array_index ''createdAt'' = None" "array_index ''updatedAt'' = None"
    by code_simp+
  have col: "getCollection ?db ''users'' = Inr ?col"
    by (simp add: users_engine_def getCollection_def)
  have validated: "validateDocument rt (now sample_entropy) (fresh_id sample_entropy 0)
      (JObj [(''email'', JStr ''a@x'')]) (c_schema ?col) = Inr ?doc"
    by (simp add: validateDocument_def plain_field_def validateFieldValue_def isValidType_def
        systemFields_def sample_entropy_def nat_to_string_0 set_prop_def enumerated_before_def
        names Let_def)
  have processed: "processDocumentForStorage lb (encryptionKey (storage ?db))
      (field_iv sample_entropy 0) ?doc (c_schema ?col) = ?doc"
    by (simp add: processDocumentForStorage_def plain_field_def)
  show ?thesis
    apply (simp only: insert_document_def col sum.case validated Let_def processed)
    apply (simp add: users_engine_def plain_field_def put_document_def addToIndex_def
        email_index_def index_key_def map_has_def index_field_def getFieldValue_def
        documents_of_def Let_def)
    done
qed

subsection \<open>C4: ordered comparison\<close>

text \<open>
  C4, as stated, fails: with \<open>$gt\<close> the matcher returns a match for a document in which
  the addressed field is missing, and for a string field against a number operand.
\<close>

theorem ordered_missing_and_mixed_match:
  "matchesQuery sample_runtime (JObj [(''name'', JStr ''a'')])
     (JObj [(''age'', JObj [(''$gt'', JNum 5)])]) = Inr True
   \<and> matchesQuery sample_runtime (JObj [(''age'', JStr ''10'')])
     (JObj [(''age'', JObj [(''$gt'', JNum 5)])]) = Inr True"
  by code_simp

text \<open>
  C4, amended: take, for a document and a query, every \<open>$gt\<close>, \<open>$gte\<close>, \<open>$lt\<close> and \<open>$lte\<close> of
  every operator object of the query, with the value of its field in the document and its
  operand; one of them is comparable when the value and the operand are both strings, or
  are each a number (NaN included), a boolean, null or a date. Whenever the matcher
  returns a match, every comparable one holds: between strings in code-unit order,
  between numeric values in their order, and always when the value or the operand is NaN.
  For a query made only of these operators, all of them comparable, the matcher returns
  exactly whether all of them hold. Operands of different types are therefore compared,
  not rejected.
\<close>

theorem ordered_operators_compare:
  "(matchesQuery rt d q = Inr True
      \<longrightarrow> list_all (\<lambda>(op, v, w). comparable v w \<longrightarrow> ordered_holds op v w) (ordered_tests d q))
   \<and> (ordered_query q \<and> list_all (\<lambda>(op, v, w). comparable v w) (ordered_tests d q)
      \<longrightarrow> matchesQuery rt d q
           = Inr (list_all (\<lambda>(op, v, w). ordered_holds op v w) (ordered_tests d q)))"
  by (rule matchesQuery_ordered)

theorem ordered_operators_compare_witness:
  "matchesQuery sample_runtime (JObj [(''v'', JNum 3)])
     (JObj [(''v'', JObj [(''$gte'', JNum 2), (''$lt'', JNum 5)])]) = Inr True
   \<and> ordered_query (JObj [(''v'', JObj [(''$gte'', JNum 2), (''$lt'', JNum 5)])])
   \<and> ordered_tests (JObj [(''v'', JNum 3)])
        (JObj [(''v'', JObj [(''$gte'', JNum 2), (''$lt'', JNum 5)])])
       = [(''$gte'', JNum 3, JNum 2), (''$lt'', JNum 3, JNum 5)]
   \<and> list_all (\<lambda>(op, v, w). comparable v w)
        [(''$gte'', JNum 3, JNum 2), (''$lt'', JNum 3, JNum 5)]
   \<and> list_all (\<lambda>(op, v, w). ordered_holds op v w)
        [(''$gte'', JNum 3, JNum 2), (''$lt'', JNum 3, JNum 5)]"
proof -
  let ?d = "JObj [(''v'', JNum 3)]"
  let ?q = "JObj [(''v'', JObj [(''$gte'', JNum 2), (''$lt'', JNum 5)])]"
  have t: "ordered_tests ?d ?q = [(''$gte'', JNum 3, JNum 2), (''$lt'', JNum 3, JNum 5)]"
    by code_simp
  have o: "ordered_query ?q" by code_simp
  have c: "list_all (\<lambda>(op, v, w). comparable v w)
             [(''$gte'', JNum 3, JNum 2), (''$lt'', JNum 3, JNum 5)]"
    by code_simp
  have m: "matchesQuery sample_runtime ?d ?q = Inr True" by code_simp
  from ordered_operators_compare [of sample_runtime ?d ?q] m o c
  have "Inr True = (Inr (list_all (\<lambda>(op, v, w). ordered_holds op v w)
                           [(''$gte'', JNum 3, JNum 2), (''$lt'', JNum 3, JNum 5)])
                    :: error + bool)"
    unfolding t by simp
  then have "list_all (\<lambda>(op, v, w). ordered_holds op v w)
               [(''$gte'', JNum 3, JNum 2), (''$lt'', JNum 3, JNum 5)]"
    by simp
  then show ?thesis using m o t c by simp
qed

subsection \<open>C5: the order of the documents found\<close>

text \<open>
  C5, as stated, fails: the comparator of \<open>sortDocuments\<close> finds an undefined value
  neither less nor greater than any other, so a document without the sort field compares
  equal to every document. With a document holding \<open>v = 1\<close> stored before a document
  without \<open>v\<close>, the comparator is a consistent comparison of the two, equal to one another,
  and \<open>find\<close> with the sort \<open>{v: 1}\<close> returns them as they are stored: the defined value
  before the undefined one, which is not monotone under the comparator of the
  specification.
\<close>

theorem sort_leaves_undefined_in_place:
  "find_documents sample_runtime sample_libs numbers_db ''n'' JUndefined
     (no_options\<lparr>opt_sort := JObj [(''v'', JNum 1)]\<rparr>) = Inr [doc_with_v, doc_without_v]
   \<and> getFieldValue doc_with_v ''v'' = JNum 1
   \<and> getFieldValue doc_without_v ''v'' = JUndefined
   \<and> consistent_comparator (compare_docs sample_runtime [(''v'', JNum 1)])
        [doc_with_v, doc_without_v]
   \<and> \<not> monotone_under [(''v'', JNum 1)] [doc_with_v, doc_without_v]"
  by code_simp

text \<open>
  C5, amended: when no sort key addresses an encrypted field, and, for each sort key, the
  values of the key in the stored documents that the query selects are all strings, or are
  each a number other than NaN, a boolean, null or a date, or are all undefined, and the
  runtime sorts them as the language requires of a consistent comparator, the sequence
  returned by \<open>find\<close> with that sort is monotone non-decreasing under the lexicographic
  comparator over the (path, direction) pairs, ties broken by the next sort key; \<open>skip\<close> and
  \<open>limit\<close> keep it so.
\<close>

theorem find_sort_monotone_on_comparable:
  assumes "find_documents rt lb db c query options = Inr result"
    and "getCollection db c = Inr col"
    and "truthy (opt_sort options)"
    and "sorts_plaintext (c_schema col) (object_entries (opt_sort options))"
    and "list_all is_plain_object (selected rt lb db c query)"
    and "sortable (object_entries (opt_sort options)) (selected rt lb db c query)"
    and "sort_conforms rt (compare_docs rt (object_entries (opt_sort options)))
           (selected rt lb db c query)"
  shows "monotone_under (object_entries (opt_sort options)) result"
  using assms by (rule find_sorted)

theorem find_sort_monotone_on_comparable_witness:
  "find_documents sample_runtime sample_libs two_people_db ''people'' JUndefined
     (no_options\<lparr>opt_sort := JObj [(''createdAt'', JNum 1)]\<rparr>)
     = Inr [person ''p1'' ''111-11-1111'' 1600000000000, person ''p2'' ''222-22-2222'' 1650000000000]
   \<and> getCollection two_people_db ''people''
       = Inr \<lparr>c_schema = [(''ssn'', (plain_field ''string'')\<lparr>fd_encrypted := True\<rparr>)],
              c_documents = [(JStr ''p2'', stored_person ''p2'' ''222-22-2222'' 1650000000000),
                             (JStr ''p1'', stored_person ''p1'' ''111-11-1111'' 1600000000000)],
              c_indexes = JObj []\<rparr>
   \<and> truthy (opt_sort (no_options\<lparr>opt_sort := JObj [(''createdAt'', JNum 1)]\<rparr>))
   \<and> sorts_plaintext [(''ssn'', (plain_field ''string'')\<lparr>fd_encrypted := True\<rparr>)]
        [(''createdAt'', JNum 1)]
   \<and> selected sample_runtime sample_libs two_people_db ''people'' JUndefined
       = [stored_person ''p2'' ''222-22-2222'' 1650000000000,
          stored_person ''p1'' ''111-11-1111'' 1600000000000]
   \<and> list_all is_plain_object (selected sample_runtime sample_libs two_people_db ''people'' JUndefined)
   \<and> sortable [(''createdAt'', JNum 1)]
        (selected sample_runtime sample_libs two_people_db ''people'' JUndefined)
   \<and> sort_conforms sample_runtime (compare_docs sample_runtime [(''createdAt'', JNum 1)])
        (selected sample_runtime sample_libs two_people_db ''people'' JUndefined)
   \<and> monotone_under [(''createdAt'', JNum 1)]
        [person ''p1'' ''111-11-1111'' 1600000000000, person ''p2'' ''222-22-2222'' 1650000000000]"
proof -
  let ?col = "\<lparr>c_schema = [(''ssn'', (plain_field ''string'')\<lparr>fd_encrypted := True\<rparr>)],
               c_documents = [(JStr ''p2'', stored_person ''p2'' ''222-22-2222'' 1650000000000),
                              (JStr ''p1'', stored_person ''p1'' ''111-11-1111'' 1600000000000)],
               c_indexes = JObj []\<rparr>"
  let ?options = "no_options\<lparr>opt_sort := JObj [(''createdAt'', JNum 1)]\<rparr>"
  let ?selected = "selected sample_runtime sample_libs two_people_db ''people'' JUndefined"
  have found: "find_documents sample_runtime sample_libs two_people_db ''people'' JUndefined ?options
     = Inr [person ''p1'' ''111-11-1111'' 1600000000000, person ''p2'' ''222-22-2222'' 1650000000000]"
    by code_simp
  have col: "getCollection two_people_db ''people'' = Inr ?col"
    by (simp add: two_people_db_def getCollection_def)
  have srt: "truthy (opt_sort ?options)" by simp
  have keys: "sorts_plaintext (c_schema ?col) (object_entries (opt_sort ?options))"
    by (simp add: sorts_plaintext_def split_dot_createdAt)
  have sel: "?selected = [stored_person ''p2'' ''222-22-2222'' 1650000000000,
                          stored_person ''p1'' ''111-11-1111'' 1600000000000]"
    by (simp add: selected_def col select_documents_def)
  have objs: "list_all is_plain_object ?selected"
    unfolding sel by (simp add: stored_person_def processDocumentForStorage_def)
  have sortable: "sortable (object_entries (opt_sort ?options)) ?selected"
    unfolding sel by code_simp
  have conf: "sort_conforms sample_runtime
                (compare_docs sample_runtime (object_entries (opt_sort ?options))) ?selected"
    by (rule sample_sort_conforms)
  from find_sort_monotone_on_comparable [OF found col srt keys objs sortable conf]
  have "monotone_under [(''createdAt'', JNum 1)]
          [person ''p1'' ''111-11-1111'' 1600000000000, person ''p2'' ''222-22-2222'' 1650000000000]"
    by simp
  then show ?thesis
    using found col srt keys sel objs sortable conf by simp
qed

subsection \<open>C6: encrypted fields\<close>




subsection \<open>C7: dropCollection and the indexes\<close>

text \<open>
  C7: \<open>dropCollection\<close> never touches the map of indexes of the engine, which \<open>dropIndex\<close>
  and \<open>createIndex\<close> maintain: whatever the libraries, the state and the name, the map is
  the same after the call. With the users indexed on \<open>email\<close>, the call succeeds with the
  sample libraries, the collection is gone and the storage object holds no index, and the
  engine still holds the index \<open>users.email\<close>.
\<close>

theorem dropCollection_keeps_engine_indexes:
  "indexes (fst (dropCollection lb en db name)) = indexes db
   \<and> snd (dropCollection sample_libs sample_entropy indexed_users_db ''users'') = None
   \<and> map fst (s_indexes (storage indexed_users_db)) = [''users.email'']
   \<and> map fst (indexes indexed_users_db) = [''users.email'']
   \<and> collections (fst (dropCollection sample_libs sample_entropy indexed_users_db ''users'')) = []
   \<and> s_indexes (storage (fst (dropCollection sample_libs sample_entropy indexed_users_db ''users''))) = []
   \<and> map fst (indexes (fst (dropCollection sample_libs sample_entropy indexed_users_db ''users'')))
       = [''users.email'']"
proof -
  have has: "map_has (collections indexed_users_db) ''users''"
    by (simp add: indexed_users_db_def users_engine_def map_has_def)
  obtain st1 where st1: "deleteCollection (storage indexed_users_db) ''users'' (now sample_entropy) = Inr st1"
    by (simp add: deleteCollection_def logOperation_def indexed_users_db_def users_engine_def
        empty_storage_def)
  have ix: "s_indexes st1 = []"
    using st1
    by (auto simp: deleteCollection_def logOperation_def indexed_users_db_def users_engine_def
        empty_storage_def)
  have "(case deleteCollection (storage indexed_users_db) ''users'' (now sample_entropy) of
           Inl e \<Rightarrow> False | Inr st \<Rightarrow> sample_savable st)"
    by code_simp
  then have "sample_savable st1" by (simp add: st1)
  then have save: "\<exists>st2. saveToFile sample_libs (save_iv sample_entropy) (now sample_entropy) st1 = Inr st2"
    by (rule sample_savable_saves)
  have "collections (fst (dropCollection sample_libs sample_entropy indexed_users_db ''users'')) = []"
    using has st1 save
    by (auto simp: dropCollection_def indexed_users_db_def users_engine_def map_delete_def)
  then show ?thesis
    using dropCollection_succeeds [OF has st1 save] ix
    by (simp add: dropCollection_keeps_indexes) (simp add: indexed_users_db_def users_engine_def)
qed

subsection \<open>C8: findOne\<close>

text \<open>
  C8: for every state, collection and query, \<open>findOne\<close> returns the first element of
  \<open>find\<close> with \<open>{limit: 1}\<close> when that result is not empty and null when it is empty (and
  throws what \<open>find\<close> throws).
\<close>

theorem findOne_first_or_null:
  "findOne rt lb db collectionName query = find_one_spec rt lb db collectionName query"
  unfolding findOne_def find_one_spec_def no_options_def first_or_null_def
  by (auto split: sum.splits list.splits)

theorem findOne_first_or_null_witness:
  "findOne sample_runtime sample_libs users_db ''users'' (JObj [(''email'', JStr ''b@x'')])
     = find_one_spec sample_runtime sample_libs users_db ''users'' (JObj [(''email'', JStr ''b@x'')])
   \<and> find_one_spec sample_runtime sample_libs users_db ''users'' (JObj [(''email'', JStr ''b@x'')])
     = Inr (user_doc ''u2'' ''b@x'')
   \<and> find_one_spec sample_runtime sample_libs users_db ''users'' (JObj [(''email'', JStr ''c@x'')])
     = Inr JNull"
proof -
  have "find_one_spec sample_runtime sample_libs users_db ''users'' (JObj [(''email'', JStr ''b@x'')])
     = Inr (user_doc ''u2'' ''b@x'')"
    by code_simp
  moreover have "find_one_spec sample_runtime sample_libs users_db ''users''
      (JObj [(''email'', JStr ''c@x'')]) = Inr JNull"
    by code_simp
  ultimately show ?thesis
    using findOne_first_or_null [of sample_runtime sample_libs users_db "''users''"
        "JObj [(''email'', JStr ''b@x'')]"]
    by simp
qed

subsection \<open>C9: regular expressions with options\<close>

text \<open>
  C9 does not hold of the code: the query \<open>{name: {$regex: 'john', $options: 'i'}}\<close>
  throws on a document whose name the pattern matches, and does not match the name
  \<open>John\<close>, which differs from the pattern in case only.
\<close>

theorem regex_options_throws_or_is_case_sensitive:
  "matchesQuery sample_runtime (JObj [(''name'', JStr ''john'')])
     (JObj [(''name'', JObj [(''$regex'', JStr ''john''), (''$options'', JStr ''i'')])])
     = Inl (UnsupportedOperator ''$options'')
   \<and> matchesQuery sample_runtime (JObj [(''name'', JStr ''John'')])
     (JObj [(''name'', JObj [(''$regex'', JStr ''john''), (''$options'', JStr ''i'')])])
     = Inr False"
  by code_simp

subsection \<open>C10: an operand without properties\<close>

text \<open>
  C10: a query \<open>{f: X}\<close> in which \<open>X\<close> is an object without own enumerable properties
  (the empty object, a \<open>Date\<close>) matches every document, whatever the field \<open>f\<close> holds.
\<close>

theorem empty_operand_matches_all:
  "is_object X \<Longrightarrow> object_entries X = [] \<Longrightarrow> matchesQuery rt d (JObj [(f, X)]) = Inr True"
  by (simp add: matchesQuery_def)

theorem empty_operand_matches_all_witness:
  "is_object (JObj []) \<and> object_entries (JObj []) = []
   \<and> matchesQuery sample_runtime (JObj [(''age'', JNum 30)]) (JObj [(''name'', JObj [])]) = Inr True
   \<and> is_object (JDate 0) \<and> object_entries (JDate 0) = []
   \<and> matchesQuery sample_runtime (JObj [(''age'', JNum 30)]) (JObj [(''age'', JDate 0)]) = Inr True"
  using empty_operand_matches_all [of "JObj []" sample_runtime "JObj [(''age'', JNum 30)]" "''name''"]
    empty_operand_matches_all [of "JDate 0" sample_runtime "JObj [(''age'', JNum 30)]" "''age''"]
  by simp

end
